theory Spec2Isabelle
  imports Main
begin

section \<open>The worker pool of docs/jimeng.py\<close>

text \<open>
  The module keeps a global list \<open>windows\<close> of dicts (the workers) and a global
  counter \<open>window_index\<close> (the round-robin cursor). A dict is a mutable object that
  the list and the local variable \<open>window\<close> of a running job share, so the model
  keeps the dicts in a store (\<open>heap\<close>, from the identity of a dict to its fields) and
  the list as a list of identities. A Python reference is never dangling, hence the
  store is a total function.

  Times are readings of \<open>time.perf_counter()\<close> in milliseconds: \<open>60 * 5\<close> seconds
  are 300000, \<open>asyncio.sleep(5)\<close> is 5000.
\<close>

type_synonym addr = nat

record TokenBucket =
  capacity :: nat
  available :: nat

text \<open>
  Modelled from the spec: the class \<open>rates.TokenBucket\<close> comes from the package
  \<open>cutils\<close>, which is not in the source tree. The spec's rate limiter has a
  non-blocking try-acquire that "returns whether a permit was granted and decrements
  available on success" and a release that "increments available, capped at capacity";
  its refill "replenishes toward capacity over time".
\<close>

definition get_token :: "TokenBucket \<Rightarrow> bool \<times> TokenBucket" where
  "get_token tb =
     (if 0 < available tb then (True, tb\<lparr>available := available tb - 1\<rparr>)
      else (False, tb))"

definition release :: "TokenBucket \<Rightarrow> TokenBucket" where
  "release tb = tb\<lparr>available := min (capacity tb) (available tb + 1)\<rparr>"

definition replenish :: "nat \<Rightarrow> TokenBucket \<Rightarrow> TokenBucket" where
  "replenish k tb = tb\<lparr>available := min (capacity tb) (available tb + k)\<rparr>"

record window =
  name :: string
  window_id :: string
  debug_url :: string
  token_bucket :: TokenBucket
  instance_handle :: "nat option"

text \<open>
  The calls the module makes on its collaborators, in the order it makes them:
  \<open>get_token(acquire=True)\<close> on a worker's bucket with its answer,
  \<open>asyncio.sleep\<close>, \<open>release()\<close> on a worker's bucket, \<open>connect_over_cdp\<close> for a
  worker, \<open>utils.sendAlert\<close> with its message, \<open>page.close()\<close>, and the POST of
  \<open>open_window\<close> for a window id.
\<close>

datatype event =
    GetToken addr bool
  | Sleep nat
  | Release addr
  | Connect addr
  | SendAlert string
  | PageClose
  | Post string

record state =
  windows :: "addr list"
  window_index :: nat
  heap :: "addr \<Rightarrow> window"
  clock :: nat
  trace :: "event list"

text \<open>
  What a library call raises: Playwright's \<open>TimeoutError\<close>, which the module catches
  by name in one place, or any other exception, with its \<open>str()\<close>.
\<close>

datatype lib_error = PlaywrightTimeoutError string | LibError string

datatype exn =
    BizException int string
  | Exception string
  | KeyError string
  | ZeroDivisionError
  | UnboundLocalError
  | TypeError
  | Raised lib_error

definition emit :: "event \<Rightarrow> state \<Rightarrow> state" where
  "emit ev s = s\<lparr>trace := trace s @ [ev]\<rparr>"

definition set_bucket :: "addr \<Rightarrow> TokenBucket \<Rightarrow> state \<Rightarrow> state" where
  "set_bucket a tb s = s\<lparr>heap := (heap s)(a := (heap s a)\<lparr>token_bucket := tb\<rparr>)\<rparr>"

text \<open>
  \<open>await asyncio.sleep(5)\<close>: the clock moves on by the interval (a longer sleep
  counts as lag of the next pass), and the buckets are replenished by what returns to
  them meanwhile, by their refill policy or by the releases of other jobs
  (\<open>grant a\<close> permits for the bucket of worker \<open>a\<close>).
\<close>

definition sleep :: "nat \<Rightarrow> (addr \<Rightarrow> nat) \<Rightarrow> state \<Rightarrow> state" where
  "sleep ms grant s =
     emit (Sleep ms)
       (s\<lparr>clock := clock s + ms,
          heap := (\<lambda>a. (heap s a)\<lparr>token_bucket := replenish (grant a) (token_bucket (heap s a))\<rparr>)\<rparr>)"

subsection \<open>Acquisition: the loop at the head of \<open>jimeng_expand\<close>\<close>

text \<open>
  \<open>lag i\<close> is the time the \<open>i\<close>-th pass of the loop takes before it reads the clock
  (the first pass: the time since \<open>start_at_lock\<close> was read); \<open>refill i a\<close> is what the
  bucket of worker \<open>a\<close> is granted during the \<open>i\<close>-th sleep. The loop is the job's own:
  the pool and the cursor are as the job left them when it wakes up.

  \<open>windows[window_index % len(windows)]\<close> raises \<open>ZeroDivisionError\<close> on the empty
  list; on a non-empty list the index is in range. The test
  \<open>time.perf_counter() - start_at_lock > 60 * 5\<close> is written without the subtraction.
\<close>

definition try_window :: "state \<Rightarrow> (addr \<times> bool) \<times> state" where \<comment> \<open>lines 284-286\<close>
  "try_window s =
     (let w = windows s ! (window_index s mod length (windows s));
          s1 = s\<lparr>window_index := window_index s + 1\<rparr>;
          (ok, tb) = get_token (token_bucket (heap s1 w))
      in ((w, ok), emit (GetToken w ok) (set_bucket w tb s1)))"

function acquire_loop ::
  "(nat \<Rightarrow> nat) \<Rightarrow> (nat \<Rightarrow> addr \<Rightarrow> nat) \<Rightarrow> nat \<Rightarrow> nat \<Rightarrow> state \<Rightarrow> (exn + addr) \<times> state" where
  "acquire_loop lag refill start_at_lock i s =
     (let s1 = s\<lparr>clock := clock s + lag i\<rparr> in
      if start_at_lock + 300000 < clock s1
      then (Inl (Exception ''get token bucket timeout''), s1)
      else if windows s1 = [] then (Inl ZeroDivisionError, s1)
      else (case try_window s1 of
              ((w, ok), s2) \<Rightarrow>
                if \<not> ok
                then acquire_loop lag refill start_at_lock (i + 1) (sleep 5000 (refill i) s2)
                else (Inr w, s2)))"
  by pat_completeness auto
termination
  by (relation "measure (\<lambda>(lag, refill, start_at_lock, i, s). start_at_lock + 305001 - clock s)")
     (auto simp: try_window_def sleep_def emit_def set_bucket_def Let_def split: prod.splits)

declare acquire_loop.simps [simp del]

subsection \<open>The texts of the module\<close>

text \<open>
  A Python \<open>str\<close> is modelled by its UTF-8 bytes. The Chinese texts of the module
  are written byte by byte; the comment gives the meaning.
\<close>

definition text_insufficient_credit :: string where \<comment> \<open>line 327: "insufficient credit"\<close>
  "text_insufficient_credit =
     [CHR 0xE7, CHR 0xA7, CHR 0xAF, CHR 0xE5, CHR 0x88, CHR 0x86, CHR 0xE4, CHR 0xB8, CHR
     0x8D, CHR 0xE8, CHR 0xB6, CHR 0xB3]"

definition text_page_timeout :: string where \<comment> \<open>line 373: "timeout requesting the page position"\<close>
  "text_page_timeout =
     [CHR 0xE8, CHR 0xAF, CHR 0xB7, CHR 0xE6, CHR 0xB1, CHR 0x82, CHR 0xE9, CHR 0xA1, CHR
     0xB5, CHR 0xE9, CHR 0x9D, CHR 0xA2, CHR 0xE4, CHR 0xBD, CHR 0x8D, CHR 0xE7, CHR
     0xBD, CHR 0xAE, CHR 0xE8, CHR 0xB6, CHR 0x85, CHR 0xE6, CHR 0x97, CHR 0xB6]"

definition text_banned :: string where \<comment> \<open>line 387: "account banned"\<close>
  "text_banned =
     [CHR 0xE8, CHR 0xA2, CHR 0xAB, CHR 0xE5, CHR 0xB0, CHR 0x81, CHR 0xE5, CHR 0x8F, CHR
     0xB7]"

definition text_rate_limit :: string where \<comment> \<open>line 383: "api rate limit"\<close>
  "text_rate_limit =
     ''api'' @ [CHR 0xE9, CHR 0x99, CHR 0x90, CHR 0xE9, CHR 0x80, CHR 0x9F]"

definition text_parse_failed :: string where \<comment> \<open>line 404: "parsing the image URL failed"\<close>
  "text_parse_failed =
     [CHR 0xE8, CHR 0xA7, CHR 0xA3, CHR 0xE6, CHR 0x9E, CHR 0x90, CHR 0xE5, CHR 0x9B, CHR
     0xBE, CHR 0xE7, CHR 0x89, CHR 0x87] @ ''URL'' @ [CHR 0xE5, CHR 0xA4, CHR 0xB1, CHR
     0xE8, CHR 0xB4, CHR 0xA5]"

definition text_no_url :: string where \<comment> \<open>line 406: "no image URL found"\<close>
  "text_no_url =
     [CHR 0xE6, CHR 0x9C, CHR 0xAA, CHR 0xE6, CHR 0x89, CHR 0xBE, CHR 0xE5, CHR 0x88, CHR
     0xB0, CHR 0xE5, CHR 0x9B, CHR 0xBE, CHR 0xE7, CHR 0x89, CHR 0x87] @ ''URL''"

definition text_too_small :: string where \<comment> \<open>line 347: "image too small to upload"\<close>
  "text_too_small =
     [CHR 0xE5, CHR 0x9B, CHR 0xBE, CHR 0xE7, CHR 0x89, CHR 0x87, CHR 0xE5, CHR 0xB0, CHR
     0xBA, CHR 0xE5, CHR 0xAF, CHR 0xB8, CHR 0xE8, CHR 0xBF, CHR 0x87, CHR 0xE4, CHR
     0xBD, CHR 0x8E, CHR 0xEF, CHR 0xBC, CHR 0x8C, CHR 0xE6, CHR 0x97, CHR 0xA0, CHR
     0xE6, CHR 0xB3, CHR 0x95, CHR 0xE4, CHR 0xB8, CHR 0x8A, CHR 0xE4, CHR 0xBC, CHR
     0xA0]"

definition text_download_failed :: string where \<comment> \<open>line 175: "image download failed"\<close>
  "text_download_failed =
     [CHR 0xE5, CHR 0x9B, CHR 0xBE, CHR 0xE7, CHR 0x89, CHR 0x87, CHR 0xE4, CHR 0xB8, CHR
     0x8B, CHR 0xE8, CHR 0xBD, CHR 0xBD, CHR 0xE5, CHR 0xA4, CHR 0xB1, CHR 0xE8, CHR
     0xB4, CHR 0xA5]"

definition text_browser_closing :: string where \<comment> \<open>line 208: "the browser is closing, try again shortly"\<close>
  "text_browser_closing =
     [CHR 0xE6, CHR 0xB5, CHR 0x8F, CHR 0xE8, CHR 0xA7, CHR 0x88, CHR 0xE5, CHR 0x99, CHR
     0xA8, CHR 0xE6, CHR 0xAD, CHR 0xA3, CHR 0xE5, CHR 0x9C, CHR 0xA8, CHR 0xE5, CHR
     0x85, CHR 0xB3, CHR 0xE9, CHR 0x97, CHR 0xAD, CHR 0xE4, CHR 0xB8, CHR 0xAD, CHR
     0xEF, CHR 0xBC, CHR 0x8C, CHR 0xE8, CHR 0xAF, CHR 0xB7, CHR 0xE7, CHR 0xA8, CHR
     0x8D, CHR 0xE5, CHR 0x90, CHR 0x8E, CHR 0xE6, CHR 0x93, CHR 0x8D, CHR 0xE4, CHR
     0xBD, CHR 0x9C]"

definition tagged :: "string \<Rightarrow> string \<Rightarrow> string" where \<comment> \<open>\<open>f'[{tag}] {text}'\<close>\<close>
  "tagged tag txt = ''['' @ tag @ ''] '' @ txt"

subsection \<open>What a job meets outside the module\<close>

text \<open>
  The response of the provider to a page request, as far as the module reads it: the
  HTTP status and, of the JSON body, \<open>ret\<close>, \<open>errmsg\<close>, the three credits under
  \<open>data.credit\<close> and \<open>data.item_list\<close>. A key read with \<open>body['k']\<close> is optional
  here and raises \<open>KeyError\<close> when absent; a key read with \<open>.get('k', default)\<close> is
  optional and takes the default.

  An item of \<open>item_list\<close> is its \<open>image.large_images\<close>, each large image given by its
  \<open>image_url\<close> (\<open>None\<close> when the key is absent); \<open>BadItem\<close> is an item on which
  the reads of the loop body raise (a value that is not a dict).
\<close>

datatype item = Item "string option list" | BadItem

record api_response =
  status :: int
  ret :: "string option"
  errmsg :: "string option"
  gift_credit :: "int option"
  purchase_credit :: "int option"
  vip_credit :: "int option"
  item_list :: "item list"

text \<open>
  The outcomes of the calls a job makes, one field per call site:
  \<^item> \<open>machine\<close>: the value of the environment variable \<open>C_CUSTOM_KEY_MACHINE\<close>
    (empty when unset);
  \<^item> \<open>lag\<close>, \<open>refill\<close>: see \<open>acquire_loop\<close>;
  \<^item> \<open>connect_over_cdp\<close> (line 297): the browser handle, or what starting Playwright
    and connecting raised;
  \<^item> \<open>new_page\<close> (lines 308-310): what \<open>browser.contexts[0]\<close> or \<open>new_page()\<close> raised;
  \<^item> \<open>user_credit\<close> (lines 311-316): the credit response, or what navigating, waiting
    for it or decoding it raised;
  \<^item> \<open>path_exists\<close> (line 340), \<open>image_size\<close> (lines 343-344, width and height);
  \<^item> \<open>goto_image_edit\<close> (line 350), \<open>page_steps\<close> (lines 352-367, the clicks and
    uploads inside the inner \<open>try\<close>), \<open>close_in_handler\<close> (line 372);
  \<^item> \<open>painting\<close> (lines 349, 377-380): the painting response, or what waiting for
    it or decoding it raised;
  \<^item> \<open>interpreter_text\<close>: \<open>str()\<close> of an exception the interpreter raises itself
    (its wording depends on the interpreter's version);
  \<^item> \<open>download\<close> (lines 164-171): for the index and the URL of an image, the relative
    path it was saved under, or \<open>None\<close> when the request, the write or \<open>relpath\<close>
    raised.
\<close>

record env =
  machine :: string
  lag :: "nat \<Rightarrow> nat"
  refill :: "nat \<Rightarrow> addr \<Rightarrow> nat"
  connect_over_cdp :: "lib_error + nat"
  new_page :: "lib_error option"
  user_credit :: "lib_error + api_response"
  path_exists :: bool
  image_size :: "lib_error + nat \<times> nat"
  goto_image_edit :: "lib_error option"
  page_steps :: "lib_error option"
  close_in_handler :: "lib_error option"
  painting :: "lib_error + api_response"
  interpreter_text :: "exn \<Rightarrow> string"
  download :: "nat \<Rightarrow> string option \<Rightarrow> string option"

subsection \<open>\<open>jimeng_expand\<close> after the acquisition\<close>

text \<open>
  \<open>windows = [w for w in windows if w['name'] != window_name]\<close> (lines 325, 369, 385).
\<close>

definition evict :: "string \<Rightarrow> state \<Rightarrow> state" where
  "evict window_name s =
     s\<lparr>windows := filter (\<lambda>a. name (heap s a) \<noteq> window_name) (windows s)\<rparr>"

text \<open>
  Modelled from the spec: \<open>utils.sendAlert\<close> comes from \<open>cutils\<close>; the spec's alerting
  collaborator is "fire-and-forget", so the call returns and raises nothing. The
  module makes the call only when the machine is not \<open>MY_DEV\<close> (lines 328, 374, 388).
\<close>

definition sendAlert :: "env \<Rightarrow> string \<Rightarrow> state \<Rightarrow> state" where
  "sendAlert e message s =
     (if machine e \<noteq> ''MY_DEV'' then emit (SendAlert message) s else s)"

definition total_credit :: "api_response \<Rightarrow> int" where
  "total_credit r =
     (case gift_credit r of None \<Rightarrow> 0 | Some c \<Rightarrow> c)
     + (case purchase_credit r of None \<Rightarrow> 0 | Some c \<Rightarrow> c)
     + (case vip_credit r of None \<Rightarrow> 0 | Some c \<Rightarrow> c)"

text \<open>Lines 311-330: the credit of the account. \<open>None\<close>: the job goes on.\<close>

definition credit_check :: "env \<Rightarrow> string \<Rightarrow> state \<Rightarrow> exn option \<times> state" where
  "credit_check e window_name s =
     (case user_credit e of
        Inl err \<Rightarrow> (Some (Raised err), s)
      | Inr r \<Rightarrow>
          if status r \<noteq> 200 then (Some (Exception (tagged window_name ''request error'')), s)
          else (case ret r of
                  None \<Rightarrow> (Some (KeyError ''ret''), s)
                | Some rt \<Rightarrow>
                    if rt \<noteq> ''0''
                    then (Some (Exception (tagged window_name ''request error'')), s)
                    else if total_credit r < 15
                    then (let s1 = evict window_name s;
                              message = tagged window_name text_insufficient_credit;
                              s2 = sendAlert e message s1
                          in (Some (BizException 1100 message), s2))
                    else (None, s)))"

text \<open>
  Lines 339-347: the input image. \<open>scale = 1080 / height\<close> is a float division, which
  raises on height 0; for a positive height \<open>scale > 3\<close> holds exactly when
  \<open>3 * height < 1080\<close> (the quotient is 3.0 at height 360 and at least 0.008 away from
  3 elsewhere).
\<close>

definition check_image :: "env \<Rightarrow> string \<Rightarrow> string \<Rightarrow> exn option" where
  "check_image e window_name file_path =
     (if \<not> path_exists e
      then Some (Exception (tagged window_name (''input_path not exists, file_path='' @ file_path)))
      else (case image_size e of
              Inl err \<Rightarrow> Some (Raised err)
            | Inr (width, height) \<Rightarrow>
                if height = 0 then Some ZeroDivisionError
                else if 3 * height < 1080
                then Some (BizException 1005 (tagged window_name text_too_small))
                else None))"

text \<open>
  Lines 349-376: the page interaction. Only a Playwright timeout of the steps inside
  the inner \<open>try\<close> is caught; the handler removes the worker, closes the page, alerts
  and raises the business error 1006.
\<close>

definition page_interaction :: "env \<Rightarrow> string \<Rightarrow> state \<Rightarrow> exn option \<times> state" where
  "page_interaction e window_name s =
     (case goto_image_edit e of
        Some err \<Rightarrow> (Some (Raised err), s)
      | None \<Rightarrow>
          (case page_steps e of
             None \<Rightarrow> (None, s)
           | Some (LibError m) \<Rightarrow> (Some (Raised (LibError m)), s)
           | Some (PlaywrightTimeoutError m) \<Rightarrow>
               (let s1 = evict window_name s;
                    s2 = emit PageClose s1
                in case close_in_handler e of
                     Some err \<Rightarrow> (Some (Raised err), s2)
                   | None \<Rightarrow>
                       (let message = tagged window_name text_page_timeout;
                            s3 = sendAlert e message s2
                        in (Some (BizException 1006 message), s3)))))"

text \<open>
  Lines 382-391, entered when the status is not 200 or \<open>ret\<close> is not \<open>'0'\<close>. The local
  \<open>message\<close> is bound only in the branch of \<open>ret == '1018'\<close>; line 389 reads it
  whenever the machine is not \<open>MY_DEV\<close>, and line 390 is inside that \<open>if\<close>.
\<close>

definition painting_failure :: "env \<Rightarrow> string \<Rightarrow> string \<Rightarrow> string option \<Rightarrow> state \<Rightarrow> exn \<times> state" where
  "painting_failure e window_name rt em s =
     (if rt = ''1'' \<and> em = None then (KeyError ''errmsg'', s)
      else if rt = ''1'' \<and> em = Some ''api rate limit''
      then (BizException 1003 (tagged window_name text_rate_limit), s)
      else
        (let (message, s1) =
               (if rt = ''1018''
                then (Some (tagged window_name text_banned), evict window_name s)
                else (None, s))
         in if machine e \<noteq> ''MY_DEV''
            then (case message of
                    None \<Rightarrow> (UnboundLocalError, s1)
                  | Some m \<Rightarrow> (BizException 1101 m, sendAlert e m s1))
            else (Exception ''request error'', s1)))"

text \<open>
  Lines 393-404: the loop over \<open>item_list\<close>; \<open>None\<close> when its body raised, which the
  module turns into the business error 1004.
\<close>

fun parse_urls :: "item list \<Rightarrow> string option list \<Rightarrow> string option list option" where
  "parse_urls [] images_url = Some images_url"
| "parse_urls (BadItem # rest) images_url = None"
| "parse_urls (Item [] # rest) images_url = parse_urls rest images_url"
| "parse_urls (Item (first_large_image # others) # rest) images_url =
     parse_urls rest (images_url @ [first_large_image])"

text \<open>Lines 377-407: the painting response and the URLs of the result.\<close>

definition painting_result :: "env \<Rightarrow> string \<Rightarrow> state \<Rightarrow> (exn + string option list) \<times> state" where
  "painting_result e window_name s =
     (case painting e of
        Inl err \<Rightarrow> (Inl (Raised err), s)
      | Inr r \<Rightarrow>
          (case ret r of
             None \<Rightarrow> (Inl (KeyError ''ret''), s)
           | Some rt \<Rightarrow>
               if status r \<noteq> 200 \<or> rt \<noteq> ''0''
               then (let (x, s1) = painting_failure e window_name rt (errmsg r) s in (Inl x, s1))
               else (case parse_urls (item_list r) [] of
                       None \<Rightarrow> (Inl (BizException 1004 (tagged window_name text_parse_failed)), s)
                     | Some images_url \<Rightarrow>
                         if length images_url = 0
                         then (Inl (BizException 1005 (tagged window_name text_no_url)), s)
                         else (Inr images_url, s))))"

text \<open>Lines 311-407: the body of the outer \<open>try\<close> once the page is open.\<close>

definition page_body :: "env \<Rightarrow> string \<Rightarrow> string \<Rightarrow> state \<Rightarrow> (exn + string option list) \<times> state" where
  "page_body e window_name image_ref_path s =
     (case credit_check e window_name s of
        (Some x, s1) \<Rightarrow> (Inl x, s1)
      | (None, s1) \<Rightarrow>
          (case check_image e window_name image_ref_path of
             Some x \<Rightarrow> (Inl x, s1)
           | None \<Rightarrow>
               (case page_interaction e window_name s1 of
                  (Some x, s2) \<Rightarrow> (Inl x, s2)
                | (None, s2) \<Rightarrow> painting_result e window_name s2)))"

text \<open>
  Lines 293-297: the browser handle of the worker is created at its first use and kept
  in the dict. The statement stands before the outer \<open>try\<close>. It reads the handle
  (\<open>begin_instance\<close>: whether the job connects), awaits Playwright's start and
  \<open>connect_over_cdp\<close>, and stores the result when the awaited call returns
  (\<open>finish_instance\<close>). Other jobs of the event loop run while the call is awaited.
\<close>

definition begin_instance :: "addr \<Rightarrow> state \<Rightarrow> bool \<times> state" where
  "begin_instance w s =
     (if instance_handle (heap s w) = None then (True, emit (Connect w) s) else (False, s))"

definition finish_instance :: "env \<Rightarrow> addr \<Rightarrow> state \<Rightarrow> exn option \<times> state" where
  "finish_instance e w s =
     (case connect_over_cdp e of
        Inl err \<Rightarrow> (Some (Raised err), s)
      | Inr h \<Rightarrow> (None, s\<lparr>heap := (heap s)(w := (heap s w)\<lparr>instance_handle := Some h\<rparr>)\<rparr>))"

definition ensure_instance :: "env \<Rightarrow> addr \<Rightarrow> state \<Rightarrow> exn option \<times> state" where
  "ensure_instance e w s =
     (case begin_instance w s of
        (True, s1) \<Rightarrow> finish_instance e w s1
      | (False, s1) \<Rightarrow> (None, s1))"

text \<open>
  Lines 408-415, the \<open>finally\<close> of the outer \<open>try\<close>: the permit goes back to the bucket
  of the dict the job holds, and the page, when one was opened, is closed (an
  exception of that \<open>page.close()\<close> is logged and dropped).
\<close>

definition finally_clause :: "env \<Rightarrow> addr \<Rightarrow> bool \<Rightarrow> state \<Rightarrow> state" where
  "finally_clause e w page s =
     (let s1 = emit (Release w) (set_bucket w (release (token_bucket (heap s w))) s)
      in if machine e \<noteq> ''MY_DEV1'' \<and> page then emit PageClose s1 else s1)"

text \<open>Lines 292-415: the job on the worker \<open>w\<close> it acquired.\<close>

definition run_window :: "env \<Rightarrow> addr \<Rightarrow> string \<Rightarrow> state \<Rightarrow> (exn + string option list) \<times> state" where
  "run_window e w image_ref_path s =
     (let window_name = name (heap s w)
      in case ensure_instance e w s of
           (Some x, s1) \<Rightarrow> (Inl x, s1)
         | (None, s1) \<Rightarrow>
             (case new_page e of
                Some err \<Rightarrow> (Inl (Raised err), finally_clause e w False s1)
              | None \<Rightarrow>
                  (let (r, s2) = page_body e window_name image_ref_path s1
                   in (r, finally_clause e w True s2))))"

definition jimeng_expand :: "env \<Rightarrow> string \<Rightarrow> string \<Rightarrow> state \<Rightarrow> (exn + string option list) \<times> state" where
  "jimeng_expand e image_ref_path request_id s =
     (case acquire_loop (lag e) (refill e) (clock s) 0 s of
        (Inl x, s1) \<Rightarrow> (Inl x, s1)
      | (Inr w, s1) \<Rightarrow> run_window e w image_ref_path s1)"

subsection \<open>\<open>download_image\<close>, \<open>resp_ok\<close> and \<open>process_img\<close>\<close>

record response =
  code :: int
  message :: string
  data :: "string list option"

text \<open>\<open>data\<close> is the list under \<open>output_images\<close>; an error response has no \<open>data\<close>.\<close>

definition resp_ok :: "string list \<Rightarrow> response" where
  "resp_ok output_images = \<lparr>code = 0, message = ''ok'', data = Some output_images\<rparr>"

fun download_loop ::
  "(nat \<Rightarrow> string option \<Rightarrow> string option) \<Rightarrow> nat \<Rightarrow> string option list \<Rightarrow> string list
   \<Rightarrow> string list option" where
  "download_loop dl index [] inner_imgs = Some inner_imgs"
| "download_loop dl index (image_url # rest) inner_imgs =
     (case dl index image_url of
        None \<Rightarrow> None
      | Some relative_path \<Rightarrow> download_loop dl (index + 1) rest (inner_imgs @ [relative_path]))"

definition download_image :: "env \<Rightarrow> string option list \<Rightarrow> string \<Rightarrow> exn + string list" where
  "download_image e image_urls request_id =
     (case download_loop (download e) 0 image_urls [] of
        None \<Rightarrow> Inl (BizException 1004 (tagged request_id text_download_failed))
      | Some inner_imgs \<Rightarrow> Inr inner_imgs)"

definition str_exn :: "env \<Rightarrow> exn \<Rightarrow> string" where
  "str_exn e x =
     (case x of
        BizException c m \<Rightarrow> m
      | Exception m \<Rightarrow> m
      | KeyError k \<Rightarrow> [CHR 0x27] @ k @ [CHR 0x27]
      | Raised (PlaywrightTimeoutError m) \<Rightarrow> m
      | Raised (LibError m) \<Rightarrow> m
      | _ \<Rightarrow> interpreter_text e x)"

text \<open>The two \<open>except\<close> clauses of \<open>process_img\<close> (lines 139-146).\<close>

definition error_response :: "env \<Rightarrow> exn \<Rightarrow> response" where
  "error_response e x =
     (case x of
        BizException c m \<Rightarrow> \<lparr>code = c, message = m, data = None\<rparr>
      | _ \<Rightarrow> \<lparr>code = 1000, message = str_exn e x, data = None\<rparr>)"

definition process_img :: "env \<Rightarrow> string \<Rightarrow> string \<Rightarrow> state \<Rightarrow> response \<times> state" where
  "process_img e input_img request_id s =
     (case jimeng_expand e input_img request_id s of
        (Inl x, s1) \<Rightarrow> (error_response e x, s1)
      | (Inr output_path, s1) \<Rightarrow>
          (case download_image e output_path request_id of
             Inl x \<Rightarrow> (error_response e x, s1)
           | Inr inner_imgs \<Rightarrow> (resp_ok inner_imgs, s1)))"

text \<open>
  Requests served one after the other, each with what it meets outside the module,
  its input image and its request id.
\<close>

fun serve :: "(env \<times> string \<times> string) list \<Rightarrow> state \<Rightarrow> response list \<times> state" where
  "serve [] s = ([], s)"
| "serve ((e, input_img, request_id) # rest) s =
     (let (r, s1) = process_img e input_img request_id s;
          (rs, s2) = serve rest s1
      in (r # rs, s2))"

text \<open>The events a run adds to the trace.\<close>

definition since :: "state \<Rightarrow> state \<Rightarrow> event list" where
  "since s s' = drop (length (trace s)) (trace s')"

definition attempts :: "event list \<Rightarrow> addr list" where
  "attempts evs = concat (map (\<lambda>ev. case ev of GetToken w ok \<Rightarrow> [w] | _ \<Rightarrow> []) evs)"

definition acquired :: "event list \<Rightarrow> addr list" where
  "acquired evs = concat (map (\<lambda>ev. case ev of GetToken w ok \<Rightarrow> if ok then [w] else [] | _ \<Rightarrow> []) evs)"

definition releases :: "event list \<Rightarrow> addr list" where
  "releases evs = concat (map (\<lambda>ev. case ev of Release w \<Rightarrow> [w] | _ \<Rightarrow> []) evs)"

definition alerts :: "event list \<Rightarrow> string list" where
  "alerts evs = concat (map (\<lambda>ev. case ev of SendAlert m \<Rightarrow> [m] | _ \<Rightarrow> []) evs)"

definition connects :: "event list \<Rightarrow> addr list" where
  "connects evs = concat (map (\<lambda>ev. case ev of Connect w \<Rightarrow> [w] | _ \<Rightarrow> []) evs)"

text \<open>A run of failed attempts, each followed by the sleep of five seconds.\<close>

fun backoff :: "event list \<Rightarrow> bool" where
  "backoff [] = True"
| "backoff (GetToken w ok # Sleep ms # evs) = (\<not> ok \<and> ms = 5000 \<and> backoff evs)"
| "backoff evs = False"

subsection \<open>\<open>open_window\<close>\<close>

text \<open>
  The answer to the POST of one pass: \<open>RequestError\<close> when the request,
  \<open>raise_for_status\<close> or the decoding raised (with \<open>str()\<close> of the exception), else
  the \<open>success\<close> flag of the body, the text of the response and \<open>data.http\<close>.
  An absent or empty \<open>data.http\<close> becomes \<open>{}\<close>, and \<open>'http://' + {}\<close> raises
  \<open>TypeError\<close>, whose text is ASCII and so does not contain the provider's text.
\<close>

datatype open_reply = RequestError string | Reply bool string "string option"

fun contains :: "string \<Rightarrow> string \<Rightarrow> bool" where \<comment> \<open>\<open>needle in hay\<close>\<close>
  "contains needle [] = (needle = [])"
| "contains needle (c # hay) = (take (length needle) (c # hay) = needle \<or> contains needle hay)"

definition open_attempt :: "open_reply \<Rightarrow> exn + string" where
  "open_attempt r =
     (case r of
        RequestError m \<Rightarrow> Inl (Raised (LibError m))
      | Reply success response_text http \<Rightarrow>
          if \<not> success then Inl (Exception (''open window error, err='' @ response_text))
          else (case http of
                  None \<Rightarrow> Inl TypeError
                | Some url \<Rightarrow> if url = [] then Inl TypeError else Inr (''http://'' @ url)))"

definition closing :: "exn \<Rightarrow> bool" where \<comment> \<open>line 208\<close>
  "closing x =
     (case x of
        Exception m \<Rightarrow> contains text_browser_closing m
      | Raised (LibError m) \<Rightarrow> contains text_browser_closing m
      | _ \<Rightarrow> False)"

text \<open>
  \<open>took i\<close> is the time the \<open>i\<close>-th pass takes up to the reading of the clock in the
  handler, \<open>reply i\<close> the answer to its POST.
\<close>

function open_window_loop ::
  "(nat \<Rightarrow> nat) \<Rightarrow> (nat \<Rightarrow> open_reply) \<Rightarrow> string \<Rightarrow> nat \<Rightarrow> nat \<Rightarrow> state \<Rightarrow> (exn + string) \<times> state" where
  "open_window_loop took reply wid start_at i s =
     (let s1 = emit (Post wid) (s\<lparr>clock := clock s + took i\<rparr>)
      in case open_attempt (reply i) of
           Inr url \<Rightarrow> (Inr url, s1)
         | Inl x \<Rightarrow>
             if closing x
             then (if start_at + 300000 < clock s1 then (Inl x, s1)
                   else open_window_loop took reply wid start_at (i + 1)
                          (emit (Sleep 1000) (s1\<lparr>clock := clock s1 + 1000\<rparr>)))
             else (Inl x, s1))"
  by pat_completeness auto
termination
  by (relation "measure (\<lambda>(took, reply, wid, start_at, i, s). start_at + 301001 - clock s)")
     (auto simp: emit_def)

declare open_window_loop.simps [simp del]

definition open_window :: "(nat \<Rightarrow> nat) \<Rightarrow> (nat \<Rightarrow> open_reply) \<Rightarrow> string \<Rightarrow> state \<Rightarrow> (exn + string) \<times> state" where
  "open_window took reply wid s = open_window_loop took reply wid (clock s) 0 s"

subsection \<open>A job up to the suspension of its first use of a worker\<close>

text \<open>
  Lines 280-297 up to the suspension of line 297: the acquisition and then the reading
  of the handle in line 293. Between the granted permit and that reading there is no
  \<open>await\<close>; the job is suspended in line 297 while Playwright connects. The result
  is the worker and whether the job is connecting.
\<close>

definition first_segment :: "env \<Rightarrow> state \<Rightarrow> (exn + addr \<times> bool) \<times> state" where
  "first_segment e s =
     (case acquire_loop (lag e) (refill e) (clock s) 0 s of
        (Inl x, s1) \<Rightarrow> (Inl x, s1)
      | (Inr w, s1) \<Rightarrow> (case begin_instance w s1 of (connecting, s2) \<Rightarrow> (Inr (w, connecting), s2)))"

subsection \<open>Auxiliary notions\<close>

text \<open>
  No business error of the module carries the code 0, the code of \<open>resp_ok\<close>.
\<close>

definition biz_ok :: "exn \<Rightarrow> bool" where
  "biz_ok x = (case x of BizException c m \<Rightarrow> c \<noteq> 0 | _ \<Rightarrow> True)"

text \<open>
  What the steps of a job guarantee about the pool and the trace, as predicates on the
  state before and after: \<open>acq_post\<close> for the acquisition loop with its result,
  \<open>body_post\<close> for a step inside the outer \<open>try\<close> of a job on the worker named
  \<open>n\<close>, \<open>run_post\<close> for the job after the acquisition of \<open>w\<close>, \<open>job_post\<close>
  for a whole job and \<open>serve_post\<close> for \<open>n\<close> jobs.
\<close>

definition acq_post :: "state \<Rightarrow> exn + addr \<Rightarrow> state \<Rightarrow> bool" where
  "acq_post s r s' =
     (windows s' = windows s
      \<and> (\<forall>a. name (heap s' a) = name (heap s a))
      \<and> (\<forall>a. instance_handle (heap s' a) = instance_handle (heap s a))
      \<and> (\<exists>evs. trace s' = trace s @ evs
            \<and> window_index s' = window_index s + length (attempts evs)
            \<and> attempts evs
                = map (\<lambda>k. windows s ! ((window_index s + k) mod length (windows s)))
                    [0..<length (attempts evs)]
            \<and> set (attempts evs) \<subseteq> set (windows s)
            \<and> releases evs = [] \<and> alerts evs = [] \<and> connects evs = []
            \<and> acquired evs = (case r of Inr w \<Rightarrow> [w] | Inl x \<Rightarrow> []))
      \<and> (case r of Inr w \<Rightarrow> w \<in> set (windows s) | Inl x \<Rightarrow> True))"

definition body_post :: "string \<Rightarrow> state \<Rightarrow> state \<Rightarrow> bool" where
  "body_post n s s' =
     (heap s' = heap s \<and> window_index s' = window_index s \<and> clock s' = clock s
      \<and> (windows s' = windows s
           \<or> windows s' = filter (\<lambda>a. name (heap s a) \<noteq> n) (windows s))
      \<and> (\<exists>evs. trace s' = trace s @ evs \<and> attempts evs = [] \<and> acquired evs = []
             \<and> releases evs = [] \<and> connects evs = [] \<and> length (alerts evs) \<le> 1))"

definition run_post :: "addr \<Rightarrow> state \<Rightarrow> state \<Rightarrow> bool" where
  "run_post w s s' =
     ((\<forall>a. name (heap s' a) = name (heap s a)) \<and> window_index s' = window_index s
      \<and> (\<exists>evs. trace s' = trace s @ evs \<and> attempts evs = [] \<and> acquired evs = []
             \<and> length (alerts evs) \<le> 1
             \<and> (windows s' = windows s \<and> (releases evs = [w] \<or> releases evs = [])
                  \<or> windows s' = filter (\<lambda>a. name (heap s a) \<noteq> name (heap s w)) (windows s)
                    \<and> releases evs = [w])))"

definition job_post :: "state \<Rightarrow> state \<Rightarrow> bool" where
  "job_post s s' =
     ((\<forall>a. name (heap s' a) = name (heap s a))
      \<and> (\<exists>evs. trace s' = trace s @ evs
            \<and> window_index s' = window_index s + length (attempts evs)
            \<and> attempts evs
                = map (\<lambda>k. windows s ! ((window_index s + k) mod length (windows s)))
                    [0..<length (attempts evs)]
            \<and> set (attempts evs) \<subseteq> set (windows s)
            \<and> length (alerts evs) \<le> 1
            \<and> (acquired evs = [] \<and> releases evs = [] \<and> windows s' = windows s
                 \<or> (\<exists>w. acquired evs = [w] \<and> w \<in> set (windows s)
                      \<and> (windows s' = windows s \<and> (releases evs = [w] \<or> releases evs = [])
                           \<or> windows s'
                               = filter (\<lambda>a. name (heap s a) \<noteq> name (heap s w)) (windows s)
                             \<and> releases evs = [w])))))"

definition serve_post :: "nat \<Rightarrow> state \<Rightarrow> state \<Rightarrow> bool" where
  "serve_post n s s' =
     ((\<forall>a. name (heap s' a) = name (heap s a))
      \<and> (\<exists>P. windows s' = filter P (windows s))
      \<and> (\<exists>evs. trace s' = trace s @ evs
            \<and> window_index s' = window_index s + length (attempts evs)
            \<and> set (attempts evs) \<subseteq> set (windows s)
            \<and> length (acquired evs) \<le> n
            \<and> (windows s' = windows s \<longrightarrow>
                 attempts evs
                 = map (\<lambda>k. windows s ! ((window_index s + k) mod length (windows s)))
                     [0..<length (attempts evs)])))"

text \<open>
  The job reaches the body of the outer \<open>try\<close> with an open page: it acquires the
  worker \<open>w\<close>, has or gets the browser handle of \<open>w\<close>, and \<open>new_page()\<close> returns.
  \<open>credit_ok\<close>: the credit response is well and reports at least 15 credits.
\<close>

definition on_page :: "env \<Rightarrow> state \<Rightarrow> addr \<Rightarrow> bool" where
  "on_page e s w =
     (fst (acquire_loop (lag e) (refill e) (clock s) 0 s) = Inr w
      \<and> fst (ensure_instance e w (snd (acquire_loop (lag e) (refill e) (clock s) 0 s))) = None
      \<and> new_page e = None)"

definition credit_ok :: "env \<Rightarrow> bool" where
  "credit_ok e =
     (case user_credit e of
        Inl err \<Rightarrow> False
      | Inr c \<Rightarrow> status c = 200 \<and> ret c = Some ''0'' \<and> 15 \<le> total_credit c)"

text \<open>
  The clock of a loop that pauses for \<open>pause\<close> after every pass that fails:
  \<open>reading pause lg i j\<close> is the time from the entry of pass \<open>i\<close> to the reading of the
  clock in pass \<open>i + j\<close>, where pass \<open>m\<close> takes \<open>lg m\<close> up to its reading.
  \<open>refused_run s k\<close> is the trace of \<open>k\<close> refused attempts from the cursor of \<open>s\<close> on,
  each followed by the sleep of five seconds.
\<close>

fun reading :: "nat \<Rightarrow> (nat \<Rightarrow> nat) \<Rightarrow> nat \<Rightarrow> nat \<Rightarrow> nat" where
  "reading pause lg i 0 = lg i"
| "reading pause lg i (Suc j) = lg i + pause + reading pause lg (Suc i) j"

definition refused_run :: "state \<Rightarrow> nat \<Rightarrow> event list" where
  "refused_run s k =
     concat (map (\<lambda>j. [GetToken (windows s ! ((window_index s + j) mod length (windows s))) False,
                        Sleep 5000]) [0..<k])"

subsection \<open>Concrete pools and environments\<close>

text \<open>
  The pool after \<open>call_main\<close>: the three configured windows (lines 30-41; the names
  are "jimeng" in Chinese followed by 028, 023, 022), each with a bucket
  \<open>TokenBucket(4, 4)\<close>, taken as four permits, all available, and no browser handle
  yet. The window ids and debug URLs are what the provisioner gave.
\<close>

definition text_jimeng :: string where
  "text_jimeng = [CHR 0xE5, CHR 0x8D, CHR 0xB3, CHR 0xE6, CHR 0xA2, CHR 0xA6]"

definition configured :: "string \<Rightarrow> window" where
  "configured suffix =
     \<lparr>name = text_jimeng @ suffix, window_id = ''id-'' @ suffix,
      debug_url = ''http://127.0.0.1:9'' @ suffix,
      token_bucket = \<lparr>capacity = 4, available = 4\<rparr>, instance_handle = None\<rparr>"

definition pool_heap :: "addr \<Rightarrow> window" where
  "pool_heap a =
     (if a = 0 then configured ''028'' else if a = 1 then configured ''023''
      else configured ''022'')"

definition pool3 :: state where
  "pool3 = \<lparr>windows = [0, 1, 2], window_index = 0, heap = pool_heap, clock = 0, trace = []\<rparr>"

text \<open>A provider response with credit and one result image.\<close>

definition good_response :: api_response where
  "good_response =
     \<lparr>status = 200, ret = Some ''0'', errmsg = None, gift_credit = Some 100,
      purchase_credit = None, vip_credit = None,
      item_list = [Item [Some ''https://img/1.png'']]\<rparr>"

text \<open>A job on which every call succeeds at once, on a production machine.\<close>

definition all_well :: env where
  "all_well =
     \<lparr>machine = [], lag = (\<lambda>i. 0), refill = (\<lambda>i a. 0), connect_over_cdp = Inr 7,
      new_page = None, user_credit = Inr good_response, path_exists = True,
      image_size = Inr (1080, 1920), goto_image_edit = None, page_steps = None,
      close_in_handler = None, painting = Inr good_response,
      interpreter_text = (\<lambda>x. ''error''), download = (\<lambda>i u. Some ''expand_img/out.png'')\<rparr>"

text \<open>A job whose account reports 14 credits, and the pool with every bucket empty.\<close>

definition low_credit :: env where
  "low_credit = all_well\<lparr>user_credit := Inr (good_response\<lparr>gift_credit := Some 14\<rparr>)\<rparr>"

definition saturated :: state where
  "saturated =
     pool3\<lparr>heap := (\<lambda>a. (pool_heap a)\<lparr>token_bucket := \<lparr>capacity = 4, available = 0\<rparr>\<rparr>)\<rparr>"

definition well_job :: "env \<times> string \<times> string" where
  "well_job = (all_well, ''in.png'', ''r1'')"

text \<open>
  Jobs that meet one failure each: the browser refuses the connection of line 297; the
  page steps run into Playwright's timeout; the provider answers the painting request
  with its rate limit; the first navigation runs into Playwright's timeout.
\<close>

definition refused_connection :: env where
  "refused_connection = all_well\<lparr>connect_over_cdp := Inl (LibError ''connect ECONNREFUSED'')\<rparr>"

definition page_timeout :: env where
  "page_timeout = all_well\<lparr>page_steps := Some (PlaywrightTimeoutError ''Timeout 30000ms exceeded.'')\<rparr>"

definition rate_limited :: env where
  "rate_limited =
     all_well\<lparr>painting := Inr (good_response\<lparr>ret := Some ''1'', errmsg := Some ''api rate limit''\<rparr>)\<rparr>"

definition goto_timeout :: env where
  "goto_timeout = all_well\<lparr>user_credit := Inl (PlaywrightTimeoutError ''Timeout 30000ms exceeded.'')\<rparr>"

definition low_job :: "env \<times> string \<times> string" where
  "low_job = (low_credit, ''in.png'', ''r1'')"

text \<open>The pool after three jobs that each found their account short of credit.\<close>

definition emptied :: state where
  "emptied = snd (serve [low_job, low_job, low_job] pool3)"

text \<open>
  The developer's machine (\<open>C_CUSTOM_KEY_MACHINE = MY_DEV\<close>, lines 42-51): one window
  with \<open>TokenBucket(5, 5)\<close>, and the test job of \<open>do_test\<close> with an account short of
  credit.
\<close>

definition dev_pool :: state where
  "dev_pool =
     \<lparr>windows = [0], window_index = 0,
      heap = (\<lambda>a. \<lparr>name = text_jimeng @ ''027'', window_id = ''beeed84585834cc08d52eb6c15ac8483'',
                    debug_url = ''http://127.0.0.1:9221'',
                    token_bucket = \<lparr>capacity = 5, available = 5\<rparr>, instance_handle = None\<rparr>),
      clock = 0, trace = []\<rparr>"

definition dev_low_credit :: env where
  "dev_low_credit = low_credit\<lparr>machine := ''MY_DEV''\<rparr>"

text \<open>
  The provisioner's answers for \<open>open_window\<close>: the provider's "closing" text, and a
  refused connection.
\<close>

definition busy_reply :: open_reply where
  "busy_reply = Reply False (''msg: '' @ text_browser_closing) None"

definition refused_reply :: open_reply where
  "refused_reply = RequestError ''Connection refused''"

text \<open>The pool after two jobs that each found their account short of credit.\<close>

definition one_left :: state where
  "one_left = snd (serve [low_job, low_job] pool3)"

section \<open>Properties\<close>

subsection \<open>The codes of the errors\<close>

lemma credit_check_code: "credit_check e n s = (Some x, s') \<Longrightarrow> biz_ok x"
  by (auto simp: credit_check_def biz_ok_def Let_def split: sum.splits option.splits if_splits)

lemma check_image_code: "check_image e n p = Some x \<Longrightarrow> biz_ok x"
  by (auto simp: check_image_def biz_ok_def split: sum.splits if_splits)

lemma page_interaction_code: "page_interaction e n s = (Some x, s') \<Longrightarrow> biz_ok x"
  by (auto simp: page_interaction_def biz_ok_def Let_def split: option.splits lib_error.splits)

lemma painting_failure_code: "painting_failure e n rt em s = (x, s') \<Longrightarrow> biz_ok x"
  by (auto simp: painting_failure_def biz_ok_def Let_def split: option.splits if_splits)

lemma painting_result_code: "painting_result e n s = (Inl x, s') \<Longrightarrow> biz_ok x"
  by (auto simp: painting_result_def Let_def biz_ok_def[of "BizException _ _"] biz_ok_def[of "Raised _"] biz_ok_def[of "KeyError _"]
      split: sum.splits option.splits if_splits prod.splits dest: painting_failure_code)

lemma painting_result_urls: "painting_result e n s = (Inr urls, s') \<Longrightarrow> urls \<noteq> []"
  by (auto simp: painting_result_def Let_def split: sum.splits option.splits if_splits prod.splits)

lemma page_body_code: "page_body e n p s = (Inl x, s') \<Longrightarrow> biz_ok x"
  by (auto simp: page_body_def split: prod.splits option.splits
      dest: credit_check_code check_image_code page_interaction_code painting_result_code)

lemma page_body_urls: "page_body e n p s = (Inr urls, s') \<Longrightarrow> urls \<noteq> []"
  by (auto simp: page_body_def split: prod.splits option.splits dest: painting_result_urls)

lemma ensure_instance_code: "ensure_instance e w s = (Some x, s') \<Longrightarrow> biz_ok x"
  by (auto simp: ensure_instance_def begin_instance_def finish_instance_def biz_ok_def split: if_splits sum.splits)

lemma run_window_code: "run_window e w p s = (Inl x, s') \<Longrightarrow> biz_ok x"
  by (auto simp: run_window_def Let_def biz_ok_def[of "Raised _"] split: prod.splits option.splits
      dest: ensure_instance_code page_body_code)

lemma run_window_urls: "run_window e w p s = (Inr urls, s') \<Longrightarrow> urls \<noteq> []"
  by (auto simp: run_window_def Let_def split: prod.splits option.splits dest: page_body_urls)

lemma acquire_loop_code: "acquire_loop lg rf st i s = (Inl x, s') \<Longrightarrow> biz_ok x"
proof (induction lg rf st i s rule: acquire_loop.induct)
  case (1 lg rf st i s)
  then show ?case
    by (subst (asm) (2) acquire_loop.simps) (auto simp: Let_def biz_ok_def split: if_splits prod.splits)
qed

lemma jimeng_expand_code: "jimeng_expand e p rid s = (Inl x, s') \<Longrightarrow> biz_ok x"
  by (auto simp: jimeng_expand_def split: prod.splits sum.splits dest: acquire_loop_code run_window_code)

lemma jimeng_expand_urls: "jimeng_expand e p rid s = (Inr urls, s') \<Longrightarrow> urls \<noteq> []"
  by (auto simp: jimeng_expand_def split: prod.splits sum.splits dest: run_window_urls)

lemma download_loop_length:
  "download_loop dl k urls acc = Some imgs \<Longrightarrow> length imgs = length acc + length urls"
  by (induction urls arbitrary: k acc) (auto split: option.splits)

lemma download_image_code: "download_image e urls rid = Inl x \<Longrightarrow> biz_ok x"
  by (auto simp: download_image_def biz_ok_def split: option.splits)

lemma download_image_length: "download_image e urls rid = Inr imgs \<Longrightarrow> length imgs = length urls"
  by (auto simp: download_image_def split: option.splits dest: download_loop_length)

lemma error_response_code: "biz_ok x \<Longrightarrow> code (error_response e x) \<noteq> 0"
  by (auto simp: error_response_def biz_ok_def split: exn.splits)

subsection \<open>Successful responses carry images\<close>

lemma all_well_served:
  "fst (process_img all_well ''in.png'' ''r1'' pool3) = resp_ok [''expand_img/out.png'']"
  by (simp add: process_img_def jimeng_expand_def acquire_loop.simps try_window_def pool3_def
      all_well_def pool_heap_def configured_def get_token_def set_bucket_def emit_def
      run_window_def ensure_instance_def begin_instance_def finish_instance_def page_body_def
      credit_check_def total_credit_def good_response_def check_image_def
      page_interaction_def painting_result_def finally_clause_def release_def
      download_image_def resp_ok_def Let_def)

text \<open>
  C10. A response of \<open>process_img\<close> with code 0 carries a non-empty list of output
  images; and a painting response that is well (status 200, \<open>ret\<close> \<open>'0'\<close>) but from
  which the loop over its items collects no URL makes \<open>jimeng_expand\<close> raise the
  business error 1005, so no success response is built from it.
\<close>

theorem process_img_success_has_images:
  "(code (fst (process_img e input_img request_id s)) = 0
      \<longrightarrow> (\<exists>imgs. data (fst (process_img e input_img request_id s)) = Some imgs \<and> imgs \<noteq> []))
   \<and> (painting e' = Inr p \<and> status p = 200 \<and> ret p = Some ''0''
        \<and> parse_urls (item_list p) [] = Some []
      \<longrightarrow> painting_result e' window_name s
          = (Inl (BizException 1005 (tagged window_name text_no_url)), s))"
proof (intro conjI impI)
  assume a: "code (fst (process_img e input_img request_id s)) = 0"
  show "\<exists>imgs. data (fst (process_img e input_img request_id s)) = Some imgs \<and> imgs \<noteq> []"
  proof (cases "jimeng_expand e input_img request_id s")
    case (Pair res s1)
    show ?thesis
    proof (cases res)
      case (Inl x)
      with Pair a jimeng_expand_code[of e input_img request_id s x s1] error_response_code[of x e]
      show ?thesis by (auto simp: process_img_def)
    next
      case (Inr urls)
      note urls = jimeng_expand_urls[OF Pair[unfolded Inr]]
      show ?thesis
      proof (cases "download_image e urls request_id")
        case (Inl x)
        with Pair Inr a download_image_code[OF Inl] error_response_code[of x e]
        show ?thesis by (auto simp: process_img_def)
      next
        case dl: (Inr imgs)
        from download_image_length[OF dl] urls have "imgs \<noteq> []" by auto
        with Pair Inr dl a show ?thesis by (auto simp: process_img_def resp_ok_def)
      qed
    qed
  qed
next
  assume "painting e' = Inr p \<and> status p = 200 \<and> ret p = Some ''0''
    \<and> parse_urls (item_list p) [] = Some []"
  then show "painting_result e' window_name s
      = (Inl (BizException 1005 (tagged window_name text_no_url)), s)"
    by (simp add: painting_result_def)
qed

theorem process_img_success_has_images_witness:
  "code (fst (process_img all_well ''in.png'' ''r1'' pool3)) = 0
   \<and> (\<exists>imgs. data (fst (process_img all_well ''in.png'' ''r1'' pool3)) = Some imgs \<and> imgs \<noteq> [])
   \<and> painting (all_well\<lparr>painting := Inr (good_response\<lparr>item_list := [Item []]\<rparr>)\<rparr>)
       = Inr (good_response\<lparr>item_list := [Item []]\<rparr>)
   \<and> status (good_response\<lparr>item_list := [Item []]\<rparr>) = 200
   \<and> ret (good_response\<lparr>item_list := [Item []]\<rparr>) = Some ''0''
   \<and> parse_urls (item_list (good_response\<lparr>item_list := [Item []]\<rparr>)) [] = Some []
   \<and> painting_result (all_well\<lparr>painting := Inr (good_response\<lparr>item_list := [Item []]\<rparr>)\<rparr>)
        (name (pool_heap 0)) pool3
      = (Inl (BizException 1005 (tagged (name (pool_heap 0)) text_no_url)), pool3)"
proof -
  have c: "code (fst (process_img all_well ''in.png'' ''r1'' pool3)) = 0"
    by (simp add: all_well_served resp_ok_def)
  have p: "painting (all_well\<lparr>painting := Inr (good_response\<lparr>item_list := [Item []]\<rparr>)\<rparr>)
       = Inr (good_response\<lparr>item_list := [Item []]\<rparr>)
     \<and> status (good_response\<lparr>item_list := [Item []]\<rparr>) = 200
     \<and> ret (good_response\<lparr>item_list := [Item []]\<rparr>) = Some ''0''
     \<and> parse_urls (item_list (good_response\<lparr>item_list := [Item []]\<rparr>)) [] = Some []"
    by (simp add: good_response_def)
  from process_img_success_has_images
    [of all_well "''in.png''" "''r1''" pool3
        "all_well\<lparr>painting := Inr (good_response\<lparr>item_list := [Item []]\<rparr>)\<rparr>"
        "good_response\<lparr>item_list := [Item []]\<rparr>" "name (pool_heap 0)"]
    c p
  show ?thesis by blast
qed

subsection \<open>The acquisition loop\<close>

lemma try_window_facts:
  "try_window s = ((w, ok), s') \<Longrightarrow>
     w = windows s ! (window_index s mod length (windows s))
     \<and> ok = (0 < available (token_bucket (heap s w)))
     \<and> windows s' = windows s \<and> window_index s' = window_index s + 1
     \<and> clock s' = clock s \<and> trace s' = trace s @ [GetToken w ok]
     \<and> (\<forall>a. name (heap s' a) = name (heap s a))
     \<and> (\<forall>a. instance_handle (heap s' a) = instance_handle (heap s a))
     \<and> (\<forall>a. a \<noteq> w \<longrightarrow> heap s' a = heap s a)
     \<and> (\<not> ok \<longrightarrow> heap s' = heap s)"
  by (auto simp: try_window_def Let_def get_token_def set_bucket_def emit_def split: if_splits)

lemma sleep_facts:
  "windows (sleep ms g s) = windows s" "window_index (sleep ms g s) = window_index s"
  "clock (sleep ms g s) = clock s + ms" "trace (sleep ms g s) = trace s @ [Sleep ms]"
  "name (heap (sleep ms g s) a) = name (heap s a)"
  "instance_handle (heap (sleep ms g s) a) = instance_handle (heap s a)"
  "token_bucket (heap (sleep ms g s) a) = replenish (g a) (token_bucket (heap s a))"
  by (simp_all add: sleep_def emit_def)

lemma acquire_loop_timeout:
  "st + 300000 < clock s + lg i \<Longrightarrow>
   acquire_loop lg rf st i s = (Inl (Exception ''get token bucket timeout''), s\<lparr>clock := clock s + lg i\<rparr>)"
  by (subst acquire_loop.simps) simp

lemma acquire_loop_empty:
  "\<not> st + 300000 < clock s + lg i \<Longrightarrow> windows s = [] \<Longrightarrow>
   acquire_loop lg rf st i s = (Inl ZeroDivisionError, s\<lparr>clock := clock s + lg i\<rparr>)"
  by (subst acquire_loop.simps) simp

lemma acquire_loop_granted:
  "\<not> st + 300000 < clock s + lg i \<Longrightarrow> windows s \<noteq> [] \<Longrightarrow>
   try_window (s\<lparr>clock := clock s + lg i\<rparr>) = ((w, True), s2) \<Longrightarrow>
   acquire_loop lg rf st i s = (Inr w, s2)"
  by (subst acquire_loop.simps) simp

lemma acquire_loop_refused:
  "\<not> st + 300000 < clock s + lg i \<Longrightarrow> windows s \<noteq> [] \<Longrightarrow>
   try_window (s\<lparr>clock := clock s + lg i\<rparr>) = ((w, False), s2) \<Longrightarrow>
   acquire_loop lg rf st i s = acquire_loop lg rf st (i + 1) (sleep 5000 (rf i) s2)"
  by (subst acquire_loop.simps) simp

lemma acquire_loop_post:
  assumes timeout: "\<And>i s. st + 300000 < clock s + lg i \<Longrightarrow>
      Q i s (Inl (Exception ''get token bucket timeout'')) (s\<lparr>clock := clock s + lg i\<rparr>)"
    and empty: "\<And>i s. \<not> st + 300000 < clock s + lg i \<Longrightarrow> windows s = [] \<Longrightarrow>
      Q i s (Inl ZeroDivisionError) (s\<lparr>clock := clock s + lg i\<rparr>)"
    and granted: "\<And>i s w s2. \<not> st + 300000 < clock s + lg i \<Longrightarrow> windows s \<noteq> [] \<Longrightarrow>
      try_window (s\<lparr>clock := clock s + lg i\<rparr>) = ((w, True), s2) \<Longrightarrow> Q i s (Inr w) s2"
    and refused: "\<And>i s w s2 r s'. \<not> st + 300000 < clock s + lg i \<Longrightarrow> windows s \<noteq> [] \<Longrightarrow>
      try_window (s\<lparr>clock := clock s + lg i\<rparr>) = ((w, False), s2) \<Longrightarrow>
      Q (i + 1) (sleep 5000 (rf i) s2) r s' \<Longrightarrow> Q i s r s'"
  shows "Q i s (fst (acquire_loop lg rf st i s)) (snd (acquire_loop lg rf st i s))"
proof -
  have "lg' = lg \<and> rf' = rf \<and> st' = st \<longrightarrow>
        Q i s (fst (acquire_loop lg' rf' st' i s)) (snd (acquire_loop lg' rf' st' i s))"
    for lg' rf' st'
  proof (induction lg' rf' st' i s rule: acquire_loop.induct)
    case (1 lg' rf' st' i s)
    show ?case
    proof (intro impI)
      assume eq: "lg' = lg \<and> rf' = rf \<and> st' = st"
      let ?s1 = "s\<lparr>clock := clock s + lg i\<rparr>"
      show "Q i s (fst (acquire_loop lg' rf' st' i s)) (snd (acquire_loop lg' rf' st' i s))"
      proof (cases "st + 300000 < clock s + lg i")
        case True
        with eq timeout[OF True] show ?thesis by (simp add: acquire_loop_timeout)
      next
        case nt: False
        show ?thesis
        proof (cases "windows s = []")
          case True
          with eq nt empty[OF nt True] show ?thesis by (simp add: acquire_loop_empty)
        next
          case ne: False
          obtain w ok s2 where tw: "try_window ?s1 = ((w, ok), s2)"
            by (metis surj_pair)
          show ?thesis
          proof (cases ok)
            case True
            with tw have tw': "try_window ?s1 = ((w, True), s2)" by simp
            from granted[OF nt ne tw'] eq nt ne tw' show ?thesis
              by (simp add: acquire_loop_granted)
          next
            case False
            have ih: "Q (i + 1) (sleep 5000 (rf i) s2)
                (fst (acquire_loop lg rf st (i + 1) (sleep 5000 (rf i) s2)))
                (snd (acquire_loop lg rf st (i + 1) (sleep 5000 (rf i) s2)))"
              using "1.IH"[of ?s1 "(w, ok)" s2 w ok] eq nt ne tw False by simp
            from tw False have tw': "try_window ?s1 = ((w, False), s2)" by simp
            from refused[OF nt ne tw' ih] eq nt ne tw'
            show ?thesis by (simp add: acquire_loop_refused)
          qed
        qed
      qed
    qed
  qed
  then show ?thesis by simp
qed

text \<open>The projections of a trace, event by event.\<close>

lemma projections_Nil [simp]:
  "attempts [] = []" "acquired [] = []" "releases [] = []" "alerts [] = []" "connects [] = []"
  by (simp_all add: attempts_def acquired_def releases_def alerts_def connects_def)

lemma projections_append [simp]:
  "attempts (xs @ ys) = attempts xs @ attempts ys"
  "acquired (xs @ ys) = acquired xs @ acquired ys"
  "releases (xs @ ys) = releases xs @ releases ys"
  "alerts (xs @ ys) = alerts xs @ alerts ys"
  "connects (xs @ ys) = connects xs @ connects ys"
  by (simp_all add: attempts_def acquired_def releases_def alerts_def connects_def)

lemma attempts_Cons [simp]:
  "attempts (ev # evs) = (case ev of GetToken w ok \<Rightarrow> [w] | _ \<Rightarrow> []) @ attempts evs"
  by (simp add: attempts_def)

lemma acquired_Cons [simp]:
  "acquired (ev # evs)
     = (case ev of GetToken w ok \<Rightarrow> if ok then [w] else [] | _ \<Rightarrow> []) @ acquired evs"
  by (simp add: acquired_def)

lemma releases_Cons [simp]:
  "releases (ev # evs) = (case ev of Release w \<Rightarrow> [w] | _ \<Rightarrow> []) @ releases evs"
  by (simp add: releases_def)

lemma alerts_Cons [simp]:
  "alerts (ev # evs) = (case ev of SendAlert m \<Rightarrow> [m] | _ \<Rightarrow> []) @ alerts evs"
  by (simp add: alerts_def)

lemma connects_Cons [simp]:
  "connects (ev # evs) = (case ev of Connect w \<Rightarrow> [w] | _ \<Rightarrow> []) @ connects evs"
  by (simp add: connects_def)

lemma round_robin_shift:
  "f 0 # map (\<lambda>k. f (Suc k)) [0..<m] = map f [0..<Suc m]"
  by (simp only: map_upt_Suc)

lemma acquire_loop_acq_post:
  "acq_post s (fst (acquire_loop lg rf st i s)) (snd (acquire_loop lg rf st i s))"
proof (rule acquire_loop_post[where Q = "\<lambda>i s r s'. acq_post s r s'"])
  fix i s
  show "acq_post s (Inl (Exception ''get token bucket timeout'')) (s\<lparr>clock := clock s + lg i\<rparr>)"
    by (simp add: acq_post_def)
  show "acq_post s (Inl ZeroDivisionError) (s\<lparr>clock := clock s + lg i\<rparr>)"
    by (simp add: acq_post_def)
next
  fix i s w s2
  assume ne: "windows s \<noteq> []"
    and tw: "try_window (s\<lparr>clock := clock s + lg i\<rparr>) = ((w, True), s2)"
  note f = try_window_facts[OF tw]
  from f ne have "w \<in> set (windows s)" by simp
  moreover from f have "trace s2 = trace s @ [GetToken w True]" by simp
  ultimately show "acq_post s (Inr w) s2"
    unfolding acq_post_def using f by (intro conjI exI[of _ "[GetToken w True]"]) simp_all
next
  fix i s w s2 r s'
  assume ne: "windows s \<noteq> []"
    and tw: "try_window (s\<lparr>clock := clock s + lg i\<rparr>) = ((w, False), s2)"
    and ih: "acq_post (sleep 5000 (rf i) s2) r s'"
  note f = try_window_facts[OF tw]
  let ?n = "sleep 5000 (rf i) s2"
  let ?ws = "windows s"
  from ih obtain evs where evs: "trace s' = trace ?n @ evs"
      "window_index s' = window_index ?n + length (attempts evs)"
      "attempts evs = map (\<lambda>k. windows ?n ! ((window_index ?n + k) mod length (windows ?n)))
          [0..<length (attempts evs)]"
      "releases evs = []" "alerts evs = []" "connects evs = []"
      "acquired evs = (case r of Inr w \<Rightarrow> [w] | Inl x \<Rightarrow> [])"
      "set (attempts evs) \<subseteq> set (windows ?n)"
    unfolding acq_post_def by blast
  let ?evs = "[GetToken w False, Sleep 5000] @ evs"
  have wn: "windows ?n = ?ws" "window_index ?n = window_index s + 1"
    using f by (simp_all add: sleep_facts)
  have tr: "trace s' = trace s @ ?evs" using evs(1) f by (simp add: sleep_facts)
  have at: "attempts ?evs = w # attempts evs" by simp
  have w: "w = ?ws ! ((window_index s + 0) mod length ?ws)" using f by simp
  have "attempts ?evs = map (\<lambda>k. ?ws ! ((window_index s + k) mod length ?ws))
          [0..<length (attempts ?evs)]"
  proof -
    have "attempts ?evs = ?ws ! ((window_index s + 0) mod length ?ws)
          # map (\<lambda>k. ?ws ! ((window_index s + Suc k) mod length ?ws)) [0..<length (attempts evs)]"
      using evs(3) w wn at by simp
    also have "\<dots> = map (\<lambda>k. ?ws ! ((window_index s + k) mod length ?ws))
          [0..<Suc (length (attempts evs))]"
      by (rule round_robin_shift)
    finally have main: "attempts ?evs = map (\<lambda>k. ?ws ! ((window_index s + k) mod length ?ws))
          [0..<Suc (length (attempts evs))]" .
    have len: "length (attempts ?evs) = Suc (length (attempts evs))" by simp
    show ?thesis unfolding len by (rule main)
  qed
  moreover have "window_index s' = window_index s + length (attempts ?evs)"
    using evs(2) wn by simp
  moreover have "releases ?evs = []" "alerts ?evs = []" "connects ?evs = []"
      "acquired ?evs = (case r of Inr w \<Rightarrow> [w] | Inl x \<Rightarrow> [])"
    using evs by simp_all
  moreover have "set (attempts ?evs) \<subseteq> set ?ws"
    using evs(8) wn f ne by simp
  moreover have "windows s' = ?ws" "\<forall>a. name (heap s' a) = name (heap s a)"
      "\<forall>a. instance_handle (heap s' a) = instance_handle (heap s a)"
      "case r of Inr w \<Rightarrow> w \<in> set ?ws | Inl x \<Rightarrow> True"
    using ih f wn unfolding acq_post_def by (auto simp add: sleep_facts split: sum.splits)
  ultimately show "acq_post s r s'"
    unfolding acq_post_def using tr by blast
qed

subsection \<open>The steps of a job\<close>

lemma body_postI:
  "heap s' = heap s \<Longrightarrow> window_index s' = window_index s \<Longrightarrow> clock s' = clock s \<Longrightarrow>
   windows s' = windows s \<or> windows s' = filter (\<lambda>a. name (heap s a) \<noteq> n) (windows s) \<Longrightarrow>
   trace s' = trace s @ evs \<Longrightarrow> attempts evs = [] \<Longrightarrow> acquired evs = [] \<Longrightarrow>
   releases evs = [] \<Longrightarrow> connects evs = [] \<Longrightarrow> length (alerts evs) \<le> 1 \<Longrightarrow>
   body_post n s s'"
  unfolding body_post_def by blast

lemma body_post_refl: "body_post n s s"
  by (rule body_postI[where evs = "[]"]) simp_all

lemma body_post_evict: "body_post n s (evict n s)"
  by (rule body_postI[where evs = "[]"]) (simp_all add: evict_def)

lemma body_post_evict_alert: "body_post n s (sendAlert e m (evict n s))"
  by (rule body_postI[where evs = "if machine e \<noteq> ''MY_DEV'' then [SendAlert m] else []"])
     (simp_all add: sendAlert_def evict_def emit_def)

lemma body_post_close: "body_post n s (emit PageClose (evict n s))"
  by (rule body_postI[where evs = "[PageClose]"]) (simp_all add: evict_def emit_def)

lemma body_post_close_alert: "body_post n s (sendAlert e m (emit PageClose (evict n s)))"
  by (rule body_postI[where evs = "PageClose # (if machine e \<noteq> ''MY_DEV'' then [SendAlert m] else [])"])
     (simp_all add: sendAlert_def evict_def emit_def)

lemma credit_check_None: "credit_check e n s = (None, s') \<Longrightarrow> s' = s"
  by (auto simp: credit_check_def Let_def split: sum.splits option.splits if_splits)

lemma credit_check_post: "credit_check e n s = (x, s') \<Longrightarrow> body_post n s s'"
  by (auto simp: credit_check_def Let_def body_post_refl body_post_evict_alert
      split: sum.splits option.splits if_splits)

lemma page_interaction_None: "page_interaction e n s = (None, s') \<Longrightarrow> s' = s"
  by (auto simp: page_interaction_def Let_def split: option.splits lib_error.splits)

lemma page_interaction_post: "page_interaction e n s = (x, s') \<Longrightarrow> body_post n s s'"
  by (auto simp: page_interaction_def Let_def body_post_refl body_post_close body_post_close_alert
      split: option.splits lib_error.splits)

lemma painting_failure_post: "painting_failure e n rt em s = (x, s') \<Longrightarrow> body_post n s s'"
  by (auto simp: painting_failure_def Let_def body_post_refl body_post_evict body_post_evict_alert
      split: option.splits if_splits)

lemma painting_result_post: "painting_result e n s = (r, s') \<Longrightarrow> body_post n s s'"
  by (auto simp: painting_result_def Let_def body_post_refl
      split: sum.splits option.splits if_splits prod.splits dest: painting_failure_post)

lemma page_body_post: "page_body e n p s = (r, s') \<Longrightarrow> body_post n s s'"
  by (auto simp: page_body_def split: prod.splits option.splits
      dest: credit_check_post credit_check_None page_interaction_post page_interaction_None
            painting_result_post)

lemma ensure_instance_facts:
  assumes "ensure_instance e w s = (x, s1)"
  shows "windows s1 = windows s" "window_index s1 = window_index s"
    "name (heap s1 a) = name (heap s a)"
    "token_bucket (heap s1 a) = token_bucket (heap s a)"
    "trace s1 = trace s @ (if instance_handle (heap s w) = None then [Connect w] else [])"
  using assms
  by (auto simp: ensure_instance_def begin_instance_def finish_instance_def emit_def
      split: if_splits sum.splits)

lemma finally_clause_facts:
  "windows (finally_clause e w page s) = windows s"
  "window_index (finally_clause e w page s) = window_index s"
  "name (heap (finally_clause e w page s) a) = name (heap s a)"
  "trace (finally_clause e w page s)
     = trace s @ Release w # (if machine e \<noteq> ''MY_DEV1'' \<and> page then [PageClose] else [])"
  by (simp_all add: finally_clause_def Let_def emit_def set_bucket_def)

lemma run_postI:
  "(\<And>a. name (heap s' a) = name (heap s a)) \<Longrightarrow> window_index s' = window_index s \<Longrightarrow>
   trace s' = trace s @ evs \<Longrightarrow> attempts evs = [] \<Longrightarrow> acquired evs = [] \<Longrightarrow>
   length (alerts evs) \<le> 1 \<Longrightarrow>
   windows s' = windows s \<and> (releases evs = [w] \<or> releases evs = [])
     \<or> windows s' = filter (\<lambda>a. name (heap s a) \<noteq> name (heap s w)) (windows s)
       \<and> releases evs = [w] \<Longrightarrow>
   run_post w s s'"
  unfolding run_post_def by blast

lemma run_window_post:
  assumes run: "run_window e w p s = (r, s')"
  shows "run_post w s s'"
proof -
  obtain x s1 where ens: "ensure_instance e w s = (x, s1)" by (metis surj_pair)
  note f1 = ensure_instance_facts[OF ens]
  let ?c = "if instance_handle (heap s w) = None then [Connect w] else []"
  show ?thesis
  proof (cases x)
    case (Some ex)
    with run ens have "s' = s1" by (simp add: run_window_def Let_def)
    then show ?thesis
      by (intro run_postI[where evs = ?c]) (simp_all add: f1)
  next
    case None
    show ?thesis
    proof (cases "new_page e")
      case (Some err)
      with run ens None have s': "s' = finally_clause e w False s1"
        by (simp add: run_window_def Let_def)
      show ?thesis
        by (intro run_postI[where evs = "?c @ [Release w]"])
           (simp_all add: s' f1 finally_clause_facts)
    next
      case np: None
      obtain rb s2 where pb: "page_body e (name (heap s w)) p s1 = (rb, s2)" by (metis surj_pair)
      with run ens None np have s': "s' = finally_clause e w True s2"
        by (simp add: run_window_def Let_def)
      from page_body_post[OF pb] obtain evs where b:
        "heap s2 = heap s1" "window_index s2 = window_index s1"
        "windows s2 = windows s1
          \<or> windows s2 = filter (\<lambda>a. name (heap s1 a) \<noteq> name (heap s w)) (windows s1)"
        "trace s2 = trace s1 @ evs" "attempts evs = []" "acquired evs = []"
        "releases evs = []" "length (alerts evs) \<le> 1"
        unfolding body_post_def by blast
      let ?evs = "?c @ evs @ Release w # (if machine e \<noteq> ''MY_DEV1'' then [PageClose] else [])"
      have nm: "(\<lambda>a. name (heap s1 a) \<noteq> name (heap s w)) = (\<lambda>a. name (heap s a) \<noteq> name (heap s w))"
        by (simp add: f1)
      show ?thesis
      proof (rule run_postI[where evs = ?evs])
        show "trace s' = trace s @ ?evs" by (simp add: s' finally_clause_facts b f1)
        show "attempts ?evs = []" "acquired ?evs = []" "length (alerts ?evs) \<le> 1"
          using b by simp_all
        show "window_index s' = window_index s" by (simp add: s' finally_clause_facts b f1)
        show "name (heap s' a) = name (heap s a)" for a
          by (simp add: s' finally_clause_facts b f1)
        show "windows s' = windows s \<and> (releases ?evs = [w] \<or> releases ?evs = [])
          \<or> windows s' = filter (\<lambda>a. name (heap s a) \<noteq> name (heap s w)) (windows s)
            \<and> releases ?evs = [w]"
          using b(3,7) unfolding nm by (auto simp: s' finally_clause_facts f1)
      qed
    qed
  qed
qed

lemma job_postI:
  "(\<And>a. name (heap s' a) = name (heap s a)) \<Longrightarrow> trace s' = trace s @ evs \<Longrightarrow>
   window_index s' = window_index s + length (attempts evs) \<Longrightarrow>
   attempts evs = map (\<lambda>k. windows s ! ((window_index s + k) mod length (windows s)))
                    [0..<length (attempts evs)] \<Longrightarrow>
   set (attempts evs) \<subseteq> set (windows s) \<Longrightarrow> length (alerts evs) \<le> 1 \<Longrightarrow>
   (acquired evs = [] \<and> releases evs = [] \<and> windows s' = windows s
     \<or> (\<exists>w. acquired evs = [w] \<and> w \<in> set (windows s)
          \<and> (windows s' = windows s \<and> (releases evs = [w] \<or> releases evs = [])
               \<or> windows s' = filter (\<lambda>a. name (heap s a) \<noteq> name (heap s w)) (windows s)
                 \<and> releases evs = [w]))) \<Longrightarrow>
   job_post s s'"
  unfolding job_post_def by blast

lemma jimeng_expand_post:
  assumes run: "jimeng_expand e p rid s = (r, s')"
  shows "job_post s s'"
proof -
  obtain r1 s1 where acq: "acquire_loop (lag e) (refill e) (clock s) 0 s = (r1, s1)"
    by (metis surj_pair)
  from acquire_loop_acq_post[of s "lag e" "refill e" "clock s" 0] acq
  have "acq_post s r1 s1" by simp
  then obtain evs1 where a:
    "windows s1 = windows s" "\<And>a. name (heap s1 a) = name (heap s a)"
    "trace s1 = trace s @ evs1" "window_index s1 = window_index s + length (attempts evs1)"
    "attempts evs1 = map (\<lambda>k. windows s ! ((window_index s + k) mod length (windows s)))
        [0..<length (attempts evs1)]"
    "set (attempts evs1) \<subseteq> set (windows s)"
    "releases evs1 = []" "alerts evs1 = []"
    "acquired evs1 = (case r1 of Inr w \<Rightarrow> [w] | Inl x \<Rightarrow> [])"
    "case r1 of Inr w \<Rightarrow> w \<in> set (windows s) | Inl x \<Rightarrow> True"
    unfolding acq_post_def by blast
  note a' = a(1-4,7,8)
  show ?thesis
  proof (cases r1)
    case (Inl x)
    with run acq have "s' = s1" by (simp add: jimeng_expand_def)
    with a(5,6,9) Inl show ?thesis
      by (intro job_postI[where evs = evs1]) (simp_all add: a')
  next
    case (Inr w)
    with run acq have rw: "run_window e w p s1 = (r, s')" by (simp add: jimeng_expand_def)
    from run_window_post[OF rw] obtain evs2 where b:
      "\<And>a. name (heap s' a) = name (heap s1 a)" "window_index s' = window_index s1"
      "trace s' = trace s1 @ evs2" "attempts evs2 = []" "acquired evs2 = []"
      "length (alerts evs2) \<le> 1"
      "windows s' = windows s1 \<and> (releases evs2 = [w] \<or> releases evs2 = [])
        \<or> windows s' = filter (\<lambda>a. name (heap s1 a) \<noteq> name (heap s1 w)) (windows s1)
          \<and> releases evs2 = [w]"
      unfolding run_post_def by blast
    have nm: "(\<lambda>a. name (heap s1 a) \<noteq> name (heap s1 w)) = (\<lambda>a. name (heap s a) \<noteq> name (heap s w))"
      by (simp add: a')
    show ?thesis
    proof (rule job_postI[where evs = "evs1 @ evs2"])
      show "name (heap s' a) = name (heap s a)" for a by (simp add: a' b(1-5))
      show "trace s' = trace s @ evs1 @ evs2" by (simp add: a' b(1-5))
      show "window_index s' = window_index s + length (attempts (evs1 @ evs2))" by (simp add: a' b(1-5))
      show "attempts (evs1 @ evs2)
          = map (\<lambda>k. windows s ! ((window_index s + k) mod length (windows s)))
              [0..<length (attempts (evs1 @ evs2))]"
        using a(5) by (simp add: b(4))
      show "set (attempts (evs1 @ evs2)) \<subseteq> set (windows s)" using a(6) by (simp add: b(4))
      show "length (alerts (evs1 @ evs2)) \<le> 1" using b(6) by (simp add: a')
      have "acquired (evs1 @ evs2) = [w]" "w \<in> set (windows s)"
        using a(9,10) Inr by (simp_all add: b(5))
      moreover have "windows s' = windows s
            \<and> (releases (evs1 @ evs2) = [w] \<or> releases (evs1 @ evs2) = [])
          \<or> windows s' = filter (\<lambda>a. name (heap s a) \<noteq> name (heap s w)) (windows s)
            \<and> releases (evs1 @ evs2) = [w]"
        using b(7) unfolding nm by (simp add: a')
      ultimately show "acquired (evs1 @ evs2) = [] \<and> releases (evs1 @ evs2) = [] \<and> windows s' = windows s
          \<or> (\<exists>w. acquired (evs1 @ evs2) = [w] \<and> w \<in> set (windows s)
              \<and> (windows s' = windows s
                    \<and> (releases (evs1 @ evs2) = [w] \<or> releases (evs1 @ evs2) = [])
                  \<or> windows s' = filter (\<lambda>a. name (heap s a) \<noteq> name (heap s w)) (windows s)
                    \<and> releases (evs1 @ evs2) = [w]))"
        by blast
    qed
  qed
qed

lemma process_img_state:
  "snd (process_img e p rid s) = snd (jimeng_expand e p rid s)"
  by (simp add: process_img_def split: prod.splits sum.splits)

lemma process_img_post: "job_post s (snd (process_img e p rid s))"
  unfolding process_img_state by (rule jimeng_expand_post[of e p rid s "fst (jimeng_expand e p rid s)"]) simp

subsection \<open>The release of the permit\<close>

lemma run_window_releases:
  assumes run: "run_window e w p s = (r, s')"
  shows "releases (since s s') = (if fst (ensure_instance e w s) = None then [w] else [])"
proof -
  obtain x s1 where ens: "ensure_instance e w s = (x, s1)" by (metis surj_pair)
  note f1 = ensure_instance_facts[OF ens]
  show ?thesis
  proof (cases x)
    case (Some ex)
    with run ens have "s' = s1" by (simp add: run_window_def Let_def)
    with Some ens show ?thesis by (simp add: since_def f1)
  next
    case None
    show ?thesis
    proof (cases "new_page e")
      case (Some err)
      with run ens None have s': "s' = finally_clause e w False s1"
        by (simp add: run_window_def Let_def)
      show ?thesis using ens None by (simp add: since_def s' f1 finally_clause_facts)
    next
      case np: None
      obtain rb s2 where pb: "page_body e (name (heap s w)) p s1 = (rb, s2)" by (metis surj_pair)
      with run ens None np have s': "s' = finally_clause e w True s2"
        by (simp add: run_window_def Let_def)
      from page_body_post[OF pb] obtain evs where b:
        "trace s2 = trace s1 @ evs" "releases evs = []"
        unfolding body_post_def by blast
      show ?thesis using ens None by (simp add: since_def s' f1 b finally_clause_facts)
    qed
  qed
qed

lemma ensure_instance_bucket:
  "token_bucket (heap (snd (ensure_instance e w s)) a) = token_bucket (heap s a)"
  by (rule ensure_instance_facts(4)[of e w s "fst (ensure_instance e w s)"]) simp

lemma run_window_bucket:
  assumes "fst (ensure_instance e w s) = None"
  shows "token_bucket (heap (snd (run_window e w p s)) w) = release (token_bucket (heap s w))"
proof -
  obtain s1 where ens: "ensure_instance e w s = (None, s1)"
    using assms by (cases "ensure_instance e w s") simp
  have b1: "token_bucket (heap s1 w) = token_bucket (heap s w)"
    using ensure_instance_bucket[of e w s w] ens by simp
  have fin: "token_bucket (heap (finally_clause e w page s2) w) = release (token_bucket (heap s2 w))"
    for page s2
    by (simp add: finally_clause_def Let_def emit_def set_bucket_def)
  show ?thesis
  proof (cases "new_page e")
    case (Some err)
    then show ?thesis using ens by (simp add: run_window_def Let_def fin b1)
  next
    case None
    obtain rb s2 where pb: "page_body e (name (heap s w)) p s1 = (rb, s2)" by (metis surj_pair)
    from page_body_post[OF pb] have "heap s2 = heap s1" unfolding body_post_def by blast
    then show ?thesis using ens None pb by (simp add: run_window_def Let_def fin b1)
  qed
qed

subsection \<open>Lists\<close>

lemma filter_filter_id:
  assumes "filter Q (filter P xs) = xs"
  shows "filter P xs = xs"
proof -
  have "length xs = length (filter Q (filter P xs))" using assms by simp
  also have "\<dots> \<le> length (filter P xs)" by (rule length_filter_le)
  finally have "length (filter P xs) = length xs"
    using length_filter_le[of P xs] by simp
  with sum_length_filter_compl[of P xs] have "filter (\<lambda>x. \<not> P x) xs = []" by simp
  then have "\<forall>x\<in>set xs. P x" by (simp add: filter_empty_conv)
  then show ?thesis by simp
qed

lemma round_robin_append:
  "map f [0..<m] @ map (\<lambda>k. f (m + k)) [0..<n] = map f [0..<m + n]"
  by (induction n) simp_all

lemma acquired_le_attempts: "length (acquired evs) \<le> length (attempts evs)"
  by (induction evs) (auto split: event.splits)

subsection \<open>Requests served one after the other\<close>

lemma serve_state_Cons:
  "snd (serve ((e, p, rid) # rest) s) = snd (serve rest (snd (process_img e p rid s)))"
  by (simp add: Let_def split: prod.splits)

lemma job_post_shrinks: "job_post s s' \<Longrightarrow> \<exists>P. windows s' = filter P (windows s)"
proof -
  assume "job_post s s'"
  then consider "windows s' = windows s"
    | w where "windows s' = filter (\<lambda>a. name (heap s a) \<noteq> name (heap s w)) (windows s)"
    unfolding job_post_def by blast
  then show ?thesis
  proof cases
    case 1
    then have "windows s' = filter (\<lambda>a. True) (windows s)" by simp
    then show ?thesis by blast
  next
    case 2
    then show ?thesis by blast
  qed
qed

lemma serve_postI:
  "(\<And>a. name (heap s' a) = name (heap s a)) \<Longrightarrow> windows s' = filter P (windows s) \<Longrightarrow>
   trace s' = trace s @ evs \<Longrightarrow> window_index s' = window_index s + length (attempts evs) \<Longrightarrow>
   set (attempts evs) \<subseteq> set (windows s) \<Longrightarrow> length (acquired evs) \<le> n \<Longrightarrow>
   (windows s' = windows s \<Longrightarrow>
      attempts evs = map (\<lambda>k. windows s ! ((window_index s + k) mod length (windows s)))
                       [0..<length (attempts evs)]) \<Longrightarrow>
   serve_post n s s'"
  unfolding serve_post_def by blast

lemma serve_serve_post: "serve_post (length js) s (snd (serve js s))"
proof (induction js arbitrary: s)
  case Nil
  show ?case
    by (rule serve_postI[where evs = "[]" and P = "\<lambda>a. True"]) simp_all
next
  case (Cons j rest)
  obtain e p rid where j: "j = (e, p, rid)" by (metis surj_pair)
  let ?s1 = "snd (process_img e p rid s)"
  let ?s' = "snd (serve rest ?s1)"
  have s': "snd (serve (j # rest) s) = ?s'" unfolding j by (rule serve_state_Cons)
  have jp: "job_post s ?s1" by (rule process_img_post)
  from job_post_shrinks[OF jp] obtain P1 where P1: "windows ?s1 = filter P1 (windows s)" by blast
  from jp obtain evs1 where a:
    "\<And>a. name (heap ?s1 a) = name (heap s a)" "trace ?s1 = trace s @ evs1"
    "window_index ?s1 = window_index s + length (attempts evs1)"
    "attempts evs1 = map (\<lambda>k. windows s ! ((window_index s + k) mod length (windows s)))
        [0..<length (attempts evs1)]"
    "set (attempts evs1) \<subseteq> set (windows s)"
    "acquired evs1 = [] \<or> (\<exists>w. acquired evs1 = [w])"
    unfolding job_post_def by blast
  from Cons.IH[of ?s1] obtain P2 evs2 where b:
    "\<And>a. name (heap ?s' a) = name (heap ?s1 a)" "windows ?s' = filter P2 (windows ?s1)"
    "trace ?s' = trace ?s1 @ evs2"
    "window_index ?s' = window_index ?s1 + length (attempts evs2)"
    "set (attempts evs2) \<subseteq> set (windows ?s1)" "length (acquired evs2) \<le> length rest"
    "windows ?s' = windows ?s1 \<longrightarrow>
       attempts evs2 = map (\<lambda>k. windows ?s1 ! ((window_index ?s1 + k) mod length (windows ?s1)))
                       [0..<length (attempts evs2)]"
    unfolding serve_post_def by blast
  show ?case unfolding s'
  proof (rule serve_postI[where evs = "evs1 @ evs2" and P = "\<lambda>x. P1 x \<and> P2 x"])
    show "name (heap ?s' a) = name (heap s a)" for a by (simp add: a(1) b(1))
    show "windows ?s' = filter (\<lambda>x. P1 x \<and> P2 x) (windows s)" by (simp add: b(2) P1)
    show "trace ?s' = trace s @ evs1 @ evs2" by (simp add: a(2) b(3))
    show "window_index ?s' = window_index s + length (attempts (evs1 @ evs2))"
      by (simp add: a(3) b(4))
    show "set (attempts (evs1 @ evs2)) \<subseteq> set (windows s)"
      using a(5) b(5) P1 by auto
    show "length (acquired (evs1 @ evs2)) \<le> length (j # rest)"
      using a(6) b(6) by auto
    assume same: "windows ?s' = windows s"
    then have "filter P2 (filter P1 (windows s)) = windows s" by (simp add: b(2) P1)
    then have w1: "windows ?s1 = windows s" unfolding P1 by (rule filter_filter_id)
    with same b(7) have
      "attempts evs2 = map (\<lambda>k. windows s ! ((window_index ?s1 + k) mod length (windows s)))
                       [0..<length (attempts evs2)]" by simp
    then have 2: "attempts evs2
        = map (\<lambda>k. windows s ! ((window_index s + (length (attempts evs1) + k)) mod length (windows s)))
            [0..<length (attempts evs2)]"
      by (simp only: a(3) add.assoc)
    have "attempts (evs1 @ evs2)
        = map (\<lambda>k. windows s ! ((window_index s + k) mod length (windows s)))
            [0..<length (attempts evs1)]
          @ map (\<lambda>k. windows s ! ((window_index s + (length (attempts evs1) + k)) mod length (windows s)))
            [0..<length (attempts evs2)]"
      using a(4) 2 by (simp only: projections_append) 
    also have "\<dots> = map (\<lambda>k. windows s ! ((window_index s + k) mod length (windows s)))
            [0..<length (attempts evs1) + length (attempts evs2)]"
      by (rule round_robin_append[where f = "\<lambda>k. windows s ! ((window_index s + k) mod length (windows s))"])
    finally have main: "attempts (evs1 @ evs2)
        = map (\<lambda>k. windows s ! ((window_index s + k) mod length (windows s)))
            [0..<length (attempts evs1) + length (attempts evs2)]" .
    have len: "length (attempts (evs1 @ evs2)) = length (attempts evs1) + length (attempts evs2)"
      by simp
    show "attempts (evs1 @ evs2)
        = map (\<lambda>k. windows s ! ((window_index s + k) mod length (windows s)))
            [0..<length (attempts (evs1 @ evs2))]"
      unfolding len by (rule main)
  qed
qed

subsection \<open>Round robin\<close>

lemma round_robin_hits:
  assumes "j < n"
  shows "\<exists>k<n. (c + k) mod n = (j::nat)"
proof (intro exI conjI)
  let ?k = "(j + n - c mod n) mod n"
  from assms show "?k < n" by simp
  have "c mod n < n" using assms by simp
  have "(c + ?k) mod n = (c + (j + n - c mod n)) mod n"
    by (rule mod_add_right_eq)
  also have "\<dots> = (c mod n + (j + n - c mod n)) mod n"
    by (rule mod_add_left_eq[symmetric])
  also have "c mod n + (j + n - c mod n) = j + n" using \<open>c mod n < n\<close> by simp
  finally show "(c + ?k) mod n = j" using assms by simp
qed

lemma round_robin_count:
  assumes j: "j < length ws"
  shows "q * length ws \<le> K \<Longrightarrow>
    q \<le> count_list (map (\<lambda>k. ws ! ((c + k) mod length ws)) [0..<K]) (ws ! j)"
proof (induction q arbitrary: K)
  case 0
  show ?case by simp
next
  case (Suc q)
  let ?n = "length ws"
  let ?f = "\<lambda>k. ws ! ((c + k) mod ?n)"
  from Suc.prems have K: "K = ?n + (K - ?n)" and q: "q * ?n \<le> K - ?n" by simp_all
  have "map ?f [0..<?n + (K - ?n)] = map ?f [0..<?n] @ map (\<lambda>k. ?f (?n + k)) [0..<K - ?n]"
    by (rule round_robin_append[symmetric])
  also have "(\<lambda>k. ?f (?n + k)) = ?f"
    by (rule ext) (simp add: add.left_commute[of c] mod_add_self1)
  finally have split: "map ?f [0..<K] = map ?f [0..<?n] @ map ?f [0..<K - ?n]"
    using K by simp
  from round_robin_hits[OF j, of c] obtain k where k: "k < ?n" "(c + k) mod ?n = j" by blast
  then have "ws ! j \<in> set (map ?f [0..<?n])" by force
  then have "1 \<le> count_list (map ?f [0..<?n]) (ws ! j)"
    using count_list_0_iff[of "map ?f [0..<?n]" "ws ! j"] by linarith
  moreover have "q \<le> count_list (map ?f [0..<K - ?n]) (ws ! j)" by (rule Suc.IH[OF q])
  ultimately show ?case unfolding split by simp
qed

lemma round_robin_fair:
  assumes "a \<in> set ws"
  shows "K div length ws \<le> count_list (map (\<lambda>k. ws ! ((c + k) mod length ws)) [0..<K]) a"
proof -
  from assms obtain j where j: "j < length ws" "ws ! j = a" by (auto simp: in_set_conv_nth)
  have "K div length ws * length ws \<le> K" by simp
  from round_robin_count[OF j(1) this, of c] j(2) show ?thesis by simp
qed

lemma since_append: "trace s' = trace s @ evs \<Longrightarrow> since s s' = evs"
  by (simp add: since_def)

lemmas run_defs = process_img_def jimeng_expand_def acquire_loop.simps try_window_def
  get_token_def set_bucket_def emit_def sleep_def replenish_def
  run_window_def ensure_instance_def begin_instance_def finish_instance_def page_body_def
  credit_check_def total_credit_def check_image_def page_interaction_def painting_result_def
  painting_failure_def evict_def sendAlert_def finally_clause_def release_def
  download_image_def resp_ok_def error_response_def str_exn_def tagged_def Let_def

lemmas fixture_defs = pool3_def all_well_def pool_heap_def configured_def good_response_def
  low_credit_def saturated_def well_job_def

text \<open>
  C6. The pool only shrinks. A job leaves \<open>windows\<close> as it is, or it holds a permit
  on a worker \<open>w\<close>, removes the workers that carry the name of \<open>w\<close> and still
  releases its permit on \<open>w\<close>, once. After any run of jobs \<open>windows\<close> is a
  filtering of what it was (nothing is added, the order is kept), and a worker that
  is not in the pool is never tried, hence never returned, by a later acquisition.
  A job that holds a permit on a worker that has left the pool meanwhile still
  releases it in its \<open>finally\<close>: the bucket of the worker gets the permit back.
\<close>

theorem pool_only_shrinks:
  "(windows (snd (process_img e p rid s)) = windows s
      \<or> (\<exists>w. acquired (since s (snd (process_img e p rid s))) = [w] \<and> w \<in> set (windows s)
            \<and> windows (snd (process_img e p rid s))
                = filter (\<lambda>a. name (heap s a) \<noteq> name (heap s w)) (windows s)
            \<and> releases (since s (snd (process_img e p rid s))) = [w]))
   \<and> (\<exists>P. windows (snd (serve js s)) = filter P (windows s))
   \<and> (a \<notin> set (windows s) \<longrightarrow> a \<notin> set (attempts (since s (snd (serve js s)))))
   \<and> (a \<notin> set (windows s) \<and> fst (ensure_instance e' a s) = None \<longrightarrow>
        releases (since s (snd (run_window e' a p' s))) = [a]
        \<and> token_bucket (heap (snd (run_window e' a p' s)) a) = release (token_bucket (heap s a)))"
proof (intro conjI impI)
  let ?s1 = "snd (process_img e p rid s)"
  have "job_post s ?s1" by (rule process_img_post)
  then obtain evs where tr: "trace ?s1 = trace s @ evs"
    and c: "windows ?s1 = windows s
      \<or> (\<exists>w. acquired evs = [w] \<and> w \<in> set (windows s)
           \<and> windows ?s1 = filter (\<lambda>a. name (heap s a) \<noteq> name (heap s w)) (windows s)
           \<and> releases evs = [w])"
    unfolding job_post_def by blast
  from c show "windows ?s1 = windows s
      \<or> (\<exists>w. acquired (since s ?s1) = [w] \<and> w \<in> set (windows s)
            \<and> windows ?s1 = filter (\<lambda>a. name (heap s a) \<noteq> name (heap s w)) (windows s)
            \<and> releases (since s ?s1) = [w])"
    unfolding since_append[OF tr] .
next
  have "serve_post (length js) s (snd (serve js s))" by (rule serve_serve_post)
  then show "\<exists>P. windows (snd (serve js s)) = filter P (windows s)"
    unfolding serve_post_def by blast
next
  assume a: "a \<notin> set (windows s)"
  have "serve_post (length js) s (snd (serve js s))" by (rule serve_serve_post)
  then obtain evs where tr: "trace (snd (serve js s)) = trace s @ evs"
    and sub: "set (attempts evs) \<subseteq> set (windows s)"
    unfolding serve_post_def by blast
  from a sub show "a \<notin> set (attempts (since s (snd (serve js s))))"
    unfolding since_append[OF tr] by blast
next
  assume h: "a \<notin> set (windows s) \<and> fst (ensure_instance e' a s) = None"
  have "run_window e' a p' s = (fst (run_window e' a p' s), snd (run_window e' a p' s))" by simp
  from run_window_releases[OF this] h
  show "releases (since s (snd (run_window e' a p' s))) = [a]" by simp
  from h show "token_bucket (heap (snd (run_window e' a p' s)) a) = release (token_bucket (heap s a))"
    by (intro run_window_bucket) simp
qed

theorem pool_only_shrinks_witness:
  "0 \<notin> set (windows (snd (process_img low_credit ''in.png'' ''r1'' pool3)))
   \<and> 0 \<notin> set (attempts (since (snd (process_img low_credit ''in.png'' ''r1'' pool3))
        (snd (serve [well_job, well_job] (snd (process_img low_credit ''in.png'' ''r1'' pool3))))))
   \<and> fst (ensure_instance all_well 0 (snd (process_img low_credit ''in.png'' ''r1'' pool3))) = None
   \<and> releases (since (snd (process_img low_credit ''in.png'' ''r1'' pool3))
        (snd (run_window all_well 0 ''in.png'' (snd (process_img low_credit ''in.png'' ''r1'' pool3)))))
       = [0]
   \<and> acquired (since pool3 (snd (process_img low_credit ''in.png'' ''r1'' pool3))) = [0]
   \<and> releases (since pool3 (snd (process_img low_credit ''in.png'' ''r1'' pool3))) = [0]"
proof -
  have h: "0 \<notin> set (windows (snd (process_img low_credit ''in.png'' ''r1'' pool3)))"
    by (simp add: run_defs fixture_defs)
  have i: "fst (ensure_instance all_well 0 (snd (process_img low_credit ''in.png'' ''r1'' pool3))) = None"
    by (simp add: run_defs fixture_defs)
  have r: "acquired (since pool3 (snd (process_img low_credit ''in.png'' ''r1'' pool3))) = [0]
      \<and> releases (since pool3 (snd (process_img low_credit ''in.png'' ''r1'' pool3))) = [0]"
    by (simp add: since_def run_defs fixture_defs)
  from pool_only_shrinks
    [where s = "snd (process_img low_credit ''in.png'' ''r1'' pool3)" and a = 0
       and js = "[well_job, well_job]" and e' = all_well and p' = "''in.png''"] h i r
  show ?thesis by blast
qed

text \<open>
  C7. Round robin. An attempt picks the worker at \<open>window_index mod len(windows)\<close>
  and moves the cursor on by one. Over a run of \<open>M\<close> jobs that all acquire a worker
  and evict none, the attempts pick the workers in the cyclic order of the pool from
  the cursor on, so every worker of the pool is picked at least \<open>M div len(windows)\<close>
  times; when no attempt of the run was refused, the workers picked are the workers
  the acquisitions returned.
\<close>

theorem round_robin_selection:
  "(windows s \<noteq> [] \<longrightarrow>
      fst (fst (try_window s)) = windows s ! (window_index s mod length (windows s))
      \<and> window_index (snd (try_window s)) = window_index s + 1)
   \<and> (windows (snd (serve js s)) = windows s
       \<and> length (acquired (since s (snd (serve js s)))) = length js
       \<and> a \<in> set (windows s) \<longrightarrow>
      attempts (since s (snd (serve js s)))
        = map (\<lambda>k. windows s ! ((window_index s + k) mod length (windows s)))
            [0..<length (attempts (since s (snd (serve js s))))]
      \<and> window_index (snd (serve js s))
          = window_index s + length (attempts (since s (snd (serve js s))))
      \<and> length js div length (windows s) \<le> count_list (attempts (since s (snd (serve js s)))) a
      \<and> (acquired (since s (snd (serve js s))) = attempts (since s (snd (serve js s))) \<longrightarrow>
           length js div length (windows s)
             \<le> count_list (acquired (since s (snd (serve js s)))) a))"
proof (intro conjI impI)
  show "fst (fst (try_window s)) = windows s ! (window_index s mod length (windows s))"
    by (simp add: try_window_def Let_def split: prod.splits)
  show "window_index (snd (try_window s)) = window_index s + 1"
    by (simp add: try_window_def Let_def emit_def set_bucket_def split: prod.splits)
next
  let ?s' = "snd (serve js s)"
  assume h: "windows ?s' = windows s \<and> length (acquired (since s ?s')) = length js
      \<and> a \<in> set (windows s)"
  have "serve_post (length js) s ?s'" by (rule serve_serve_post)
  with h obtain evs where tr: "trace ?s' = trace s @ evs"
    and ix: "window_index ?s' = window_index s + length (attempts evs)"
    and rr: "attempts evs = map (\<lambda>k. windows s ! ((window_index s + k) mod length (windows s)))
                [0..<length (attempts evs)]"
    unfolding serve_post_def by blast
  note ev = since_append[OF tr]
  from rr show rr': "attempts (since s ?s')
        = map (\<lambda>k. windows s ! ((window_index s + k) mod length (windows s)))
            [0..<length (attempts (since s ?s'))]"
    unfolding ev .
  from ix show "window_index ?s' = window_index s + length (attempts (since s ?s'))"
    unfolding ev .
  have "length js \<le> length (attempts evs)"
    using h acquired_le_attempts[of evs] unfolding ev by simp
  then have "length js div length (windows s) \<le> length (attempts evs) div length (windows s)"
    by (rule div_le_mono)
  also have "\<dots> \<le> count_list (map (\<lambda>k. windows s ! ((window_index s + k) mod length (windows s)))
                [0..<length (attempts evs)]) a"
    using h by (intro round_robin_fair) simp
  finally show fair: "length js div length (windows s) \<le> count_list (attempts (since s ?s')) a"
    unfolding ev using rr by simp
  assume "acquired (since s ?s') = attempts (since s ?s')"
  with fair show "length js div length (windows s) \<le> count_list (acquired (since s ?s')) a"
    by simp
qed

theorem round_robin_selection_witness:
  "windows pool3 \<noteq> []
   \<and> fst (fst (try_window pool3)) = windows pool3 ! (window_index pool3 mod length (windows pool3))
   \<and> window_index (snd (try_window pool3)) = window_index pool3 + 1
   \<and> windows (snd (serve [well_job, well_job, well_job, well_job] pool3)) = windows pool3
   \<and> length (acquired (since pool3 (snd (serve [well_job, well_job, well_job, well_job] pool3))))
       = length [well_job, well_job, well_job, well_job]
   \<and> 1 \<in> set (windows pool3)
   \<and> acquired (since pool3 (snd (serve [well_job, well_job, well_job, well_job] pool3)))
       = [0, 1, 2, 0]
   \<and> length [well_job, well_job, well_job, well_job] div length (windows pool3)
       \<le> count_list (attempts (since pool3 (snd (serve [well_job, well_job, well_job, well_job] pool3)))) 1"
proof -
  have h: "windows pool3 \<noteq> []
      \<and> windows (snd (serve [well_job, well_job, well_job, well_job] pool3)) = windows pool3
      \<and> length (acquired (since pool3 (snd (serve [well_job, well_job, well_job, well_job] pool3))))
          = length [well_job, well_job, well_job, well_job]
      \<and> 1 \<in> set (windows pool3)
      \<and> acquired (since pool3 (snd (serve [well_job, well_job, well_job, well_job] pool3)))
          = [0, 1, 2, 0]"
    by (simp add: since_def run_defs fixture_defs)
  from round_robin_selection[of pool3 "[well_job, well_job, well_job, well_job]" 1] h
  show ?thesis by blast
qed

subsection \<open>Saturated buckets\<close>

lemma backoff_step: "backoff (GetToken w False # Sleep 5000 # evs) = backoff evs"
  by simp

lemma saturated_loop:
  assumes rf: "\<And>i a. rf i a = 0"
  shows "windows s \<noteq> [] \<and> (\<forall>a\<in>set (windows s). available (token_bucket (heap s a)) = 0) \<longrightarrow>
     fst (acquire_loop lg rf st i s) = Inl (Exception ''get token bucket timeout'')
     \<and> st + 300000 < clock (snd (acquire_loop lg rf st i s))
     \<and> (\<exists>evs. trace (snd (acquire_loop lg rf st i s)) = trace s @ evs \<and> backoff evs)"
proof (rule acquire_loop_post[where Q = "\<lambda>i s r s'.
     windows s \<noteq> [] \<and> (\<forall>a\<in>set (windows s). available (token_bucket (heap s a)) = 0) \<longrightarrow>
     r = Inl (Exception ''get token bucket timeout'') \<and> st + 300000 < clock s'
     \<and> (\<exists>evs. trace s' = trace s @ evs \<and> backoff evs)"])
  fix i s
  assume "st + 300000 < clock s + lg i"
  then show "windows s \<noteq> [] \<and> (\<forall>a\<in>set (windows s). available (token_bucket (heap s a)) = 0) \<longrightarrow>
     Inl (Exception ''get token bucket timeout'') = Inl (Exception ''get token bucket timeout'')
     \<and> st + 300000 < clock (s\<lparr>clock := clock s + lg i\<rparr>)
     \<and> (\<exists>evs. trace (s\<lparr>clock := clock s + lg i\<rparr>) = trace s @ evs \<and> backoff evs)"
    by (intro impI conjI exI[of _ "[]"]) simp_all
next
  fix i s
  assume "windows s = []"
  then show "windows s \<noteq> [] \<and> (\<forall>a\<in>set (windows s). available (token_bucket (heap s a)) = 0) \<longrightarrow>
     Inl ZeroDivisionError = Inl (Exception ''get token bucket timeout'')
     \<and> st + 300000 < clock (s\<lparr>clock := clock s + lg i\<rparr>)
     \<and> (\<exists>evs. trace (s\<lparr>clock := clock s + lg i\<rparr>) = trace s @ evs \<and> backoff evs)"
    by simp
next
  fix i s w s2
  assume ne: "windows s \<noteq> []"
    and tw: "try_window (s\<lparr>clock := clock s + lg i\<rparr>) = ((w, True), s2)"
  from try_window_facts[OF tw] ne
  have "w \<in> set (windows s)" "0 < available (token_bucket (heap s w))" by auto
  then show "windows s \<noteq> [] \<and> (\<forall>a\<in>set (windows s). available (token_bucket (heap s a)) = 0) \<longrightarrow>
     Inr w = Inl (Exception ''get token bucket timeout'') \<and> st + 300000 < clock s2
     \<and> (\<exists>evs. trace s2 = trace s @ evs \<and> backoff evs)"
    by auto
next
  fix i s w s2 r s'
  let ?n = "sleep 5000 (rf i) s2"
  assume tw: "try_window (s\<lparr>clock := clock s + lg i\<rparr>) = ((w, False), s2)"
    and ih: "windows ?n \<noteq> [] \<and> (\<forall>a\<in>set (windows ?n). available (token_bucket (heap ?n a)) = 0) \<longrightarrow>
     r = Inl (Exception ''get token bucket timeout'') \<and> st + 300000 < clock s'
     \<and> (\<exists>evs. trace s' = trace ?n @ evs \<and> backoff evs)"
  note f = try_window_facts[OF tw]
  show "windows s \<noteq> [] \<and> (\<forall>a\<in>set (windows s). available (token_bucket (heap s a)) = 0) \<longrightarrow>
     r = Inl (Exception ''get token bucket timeout'') \<and> st + 300000 < clock s'
     \<and> (\<exists>evs. trace s' = trace s @ evs \<and> backoff evs)"
  proof (intro impI)
    assume h: "windows s \<noteq> [] \<and> (\<forall>a\<in>set (windows s). available (token_bucket (heap s a)) = 0)"
    have "windows ?n = windows s" using f by (simp add: sleep_facts)
    moreover have "heap s2 = heap s" using f by simp
    ultimately have "windows ?n \<noteq> []
        \<and> (\<forall>a\<in>set (windows ?n). available (token_bucket (heap ?n a)) = 0)"
      using h by (simp add: sleep_facts replenish_def rf)
    with ih obtain evs where r: "r = Inl (Exception ''get token bucket timeout'')"
      "st + 300000 < clock s'" "trace s' = trace ?n @ evs" "backoff evs" by blast
    have "trace s' = trace s @ GetToken w False # Sleep 5000 # evs"
      using r(3) f by (simp add: sleep_facts)
    moreover have "backoff (GetToken w False # Sleep 5000 # evs)" using r(4) by simp
    ultimately show "r = Inl (Exception ''get token bucket timeout'') \<and> st + 300000 < clock s'
       \<and> (\<exists>evs. trace s' = trace s @ evs \<and> backoff evs)"
      using r(1,2) by blast
  qed
qed

lemma reading_lower: "pause * j \<le> reading pause lg i j"
  by (induction j arbitrary: i) (simp_all add: add.commute add_le_mono trans_le_add2)

lemma reading_steady: "reading pause (\<lambda>m. 0) i j = pause * j"
  by (induction j arbitrary: i) simp_all

lemma refused_run_0: "refused_run s 0 = []"
  by (simp add: refused_run_def)

lemma refused_run_Suc:
  assumes "windows n = windows s" and "window_index n = Suc (window_index s)"
  shows "refused_run s (Suc k)
    = GetToken (windows s ! (window_index s mod length (windows s))) False # Sleep 5000
      # refused_run n k"
  unfolding refused_run_def assms by (simp only: map_upt_Suc) simp

lemma backoff_refused_run: "backoff (refused_run s k)"
proof -
  have "backoff (concat (map (\<lambda>j. [GetToken (f j) False, Sleep 5000]) js))" for f js
    by (induction js) simp_all
  then show ?thesis unfolding refused_run_def .
qed

lemma attempts_refused_run: "length (attempts (refused_run s k)) = k"
proof -
  have "length (attempts (concat (map (\<lambda>j. [GetToken (f j) False, Sleep 5000]) js))) = length js"
    for f js by (induction js) simp_all
  from this[of _ "[0..<k]"] show ?thesis unfolding refused_run_def by simp
qed

lemma saturated_loop_exact:
  assumes rf: "\<And>i a. rf i a = 0"
  shows "windows s \<noteq> [] \<and> (\<forall>a\<in>set (windows s). available (token_bucket (heap s a)) = 0) \<longrightarrow>
     (\<exists>k. trace (snd (acquire_loop lg rf st i s)) = trace s @ refused_run s k
        \<and> clock (snd (acquire_loop lg rf st i s)) = clock s + reading 5000 lg i k
        \<and> (\<forall>j<k. clock s + reading 5000 lg i j \<le> st + 300000)
        \<and> window_index (snd (acquire_loop lg rf st i s)) = window_index s + k)"
proof (rule acquire_loop_post[where Q = "\<lambda>i s r s'.
     windows s \<noteq> [] \<and> (\<forall>a\<in>set (windows s). available (token_bucket (heap s a)) = 0) \<longrightarrow>
     (\<exists>k. trace s' = trace s @ refused_run s k
        \<and> clock s' = clock s + reading 5000 lg i k
        \<and> (\<forall>j<k. clock s + reading 5000 lg i j \<le> st + 300000)
        \<and> window_index s' = window_index s + k)"])
  fix i and s :: state
  show "windows s \<noteq> [] \<and> (\<forall>a\<in>set (windows s). available (token_bucket (heap s a)) = 0) \<longrightarrow>
     (\<exists>k. trace (s\<lparr>clock := clock s + lg i\<rparr>) = trace s @ refused_run s k
        \<and> clock (s\<lparr>clock := clock s + lg i\<rparr>) = clock s + reading 5000 lg i k
        \<and> (\<forall>j<k. clock s + reading 5000 lg i j \<le> st + 300000)
        \<and> window_index (s\<lparr>clock := clock s + lg i\<rparr>) = window_index s + k)"
    by (intro impI exI[of _ 0]) (simp add: refused_run_0)
next
  fix i and s :: state
  assume "windows s = []"
  then show "windows s \<noteq> [] \<and> (\<forall>a\<in>set (windows s). available (token_bucket (heap s a)) = 0) \<longrightarrow>
     (\<exists>k. trace (s\<lparr>clock := clock s + lg i\<rparr>) = trace s @ refused_run s k
        \<and> clock (s\<lparr>clock := clock s + lg i\<rparr>) = clock s + reading 5000 lg i k
        \<and> (\<forall>j<k. clock s + reading 5000 lg i j \<le> st + 300000)
        \<and> window_index (s\<lparr>clock := clock s + lg i\<rparr>) = window_index s + k)"
    by simp
next
  fix i and s :: state and w s2
  assume ne: "windows s \<noteq> []"
    and tw: "try_window (s\<lparr>clock := clock s + lg i\<rparr>) = ((w, True), s2)"
  from try_window_facts[OF tw] ne
  have "w \<in> set (windows s)" "0 < available (token_bucket (heap s w))" by auto
  then show "windows s \<noteq> [] \<and> (\<forall>a\<in>set (windows s). available (token_bucket (heap s a)) = 0) \<longrightarrow>
     (\<exists>k. trace s2 = trace s @ refused_run s k
        \<and> clock s2 = clock s + reading 5000 lg i k
        \<and> (\<forall>j<k. clock s + reading 5000 lg i j \<le> st + 300000)
        \<and> window_index s2 = window_index s + k)"
    by auto
next
  fix i and s :: state and w s2 r and s' :: state
  let ?n = "sleep 5000 (rf i) s2"
  assume nt: "\<not> st + 300000 < clock s + lg i"
    and tw: "try_window (s\<lparr>clock := clock s + lg i\<rparr>) = ((w, False), s2)"
    and ih: "windows ?n \<noteq> [] \<and> (\<forall>a\<in>set (windows ?n). available (token_bucket (heap ?n a)) = 0) \<longrightarrow>
     (\<exists>k. trace s' = trace ?n @ refused_run ?n k
        \<and> clock s' = clock ?n + reading 5000 lg (i + 1) k
        \<and> (\<forall>j<k. clock ?n + reading 5000 lg (i + 1) j \<le> st + 300000)
        \<and> window_index s' = window_index ?n + k)"
  note f = try_window_facts[OF tw]
  show "windows s \<noteq> [] \<and> (\<forall>a\<in>set (windows s). available (token_bucket (heap s a)) = 0) \<longrightarrow>
     (\<exists>k. trace s' = trace s @ refused_run s k
        \<and> clock s' = clock s + reading 5000 lg i k
        \<and> (\<forall>j<k. clock s + reading 5000 lg i j \<le> st + 300000)
        \<and> window_index s' = window_index s + k)"
  proof (intro impI)
    assume h: "windows s \<noteq> [] \<and> (\<forall>a\<in>set (windows s). available (token_bucket (heap s a)) = 0)"
    have wn: "windows ?n = windows s" "window_index ?n = Suc (window_index s)"
      "clock ?n = clock s + lg i + 5000"
      using f by (simp_all add: sleep_facts)
    have "heap s2 = heap s" using f by simp
    then have "windows ?n \<noteq> []
        \<and> (\<forall>a\<in>set (windows ?n). available (token_bucket (heap ?n a)) = 0)"
      using h wn(1) by (simp add: sleep_facts replenish_def rf)
    with ih obtain k where k: "trace s' = trace ?n @ refused_run ?n k"
      "clock s' = clock ?n + reading 5000 lg (i + 1) k"
      "\<forall>j<k. clock ?n + reading 5000 lg (i + 1) j \<le> st + 300000"
      "window_index s' = window_index ?n + k" by blast
    have w: "w = windows s ! (window_index s mod length (windows s))" using f by simp
    have tr: "trace s' = trace s @ refused_run s (Suc k)"
      unfolding refused_run_Suc[OF wn(1,2)] using k(1) f w by (simp add: sleep_facts)
    have cl: "clock s' = clock s + reading 5000 lg i (Suc k)" using k(2) wn(3) by simp
    have bd: "\<forall>j<Suc k. clock s + reading 5000 lg i j \<le> st + 300000"
    proof (intro allI impI)
      fix j assume j: "j < Suc k"
      show "clock s + reading 5000 lg i j \<le> st + 300000"
      proof (cases j)
        case 0
        with nt show ?thesis by simp
      next
        case (Suc j')
        with j k(3) wn(3) show ?thesis by (simp add: add.assoc)
      qed
    qed
    have ix: "window_index s' = window_index s + Suc k" using k(4) wn(2) by simp
    from tr cl bd ix show "\<exists>k. trace s' = trace s @ refused_run s k
        \<and> clock s' = clock s + reading 5000 lg i k
        \<and> (\<forall>j<k. clock s + reading 5000 lg i j \<le> st + 300000)
        \<and> window_index s' = window_index s + k" by blast
  qed
qed

text \<open>
  C3. When the pool is not empty, every bucket of the pool has no permit and no
  bucket is ever granted one, the acquisition ends with the timeout exception, which
  \<open>process_img\<close> answers with the code 1000. It makes \<open>k\<close> attempts, all refused and
  each followed by the sleep of 5 seconds, and nothing else; \<open>k\<close> is the first pass
  whose reading of the clock is more than 300 seconds after \<open>start_at_lock\<close>: every
  pass before reads at most 300 seconds, the pass that raises reads more. So there are
  at most 61 attempts, and with no time lost between the sleeps exactly 61, the
  exception being raised 305 seconds after the start. (The loop is a total function:
  its termination is proved at its definition.)
\<close>

theorem saturated_acquisition_times_out:
  assumes "windows s \<noteq> []"
    and "\<forall>a\<in>set (windows s). available (token_bucket (heap s a)) = 0"
    and "\<forall>i a. refill e i a = 0"
  shows "fst (acquire_loop (lag e) (refill e) (clock s) 0 s) = Inl (Exception ''get token bucket timeout'')
    \<and> clock s + 300000 < clock (snd (acquire_loop (lag e) (refill e) (clock s) 0 s))
    \<and> backoff (since s (snd (acquire_loop (lag e) (refill e) (clock s) 0 s)))
    \<and> fst (process_img e input_img request_id s)
        = \<lparr>code = 1000, message = ''get token bucket timeout'', data = None\<rparr>
    \<and> (\<exists>k. k \<le> 61
          \<and> since s (snd (acquire_loop (lag e) (refill e) (clock s) 0 s)) = refused_run s k
          \<and> length (attempts (since s (snd (acquire_loop (lag e) (refill e) (clock s) 0 s)))) = k
          \<and> window_index (snd (acquire_loop (lag e) (refill e) (clock s) 0 s)) = window_index s + k
          \<and> clock (snd (acquire_loop (lag e) (refill e) (clock s) 0 s))
              = clock s + reading 5000 (lag e) 0 k
          \<and> (\<forall>j<k. reading 5000 (lag e) 0 j \<le> 300000)
          \<and> 300000 < reading 5000 (lag e) 0 k)"
proof -
  let ?r = "acquire_loop (lag e) (refill e) (clock s) 0 s"
  from assms saturated_loop[of "refill e" s "lag e" "clock s" 0]
  have r: "fst ?r = Inl (Exception ''get token bucket timeout'')"
    "clock s + 300000 < clock (snd ?r)"
    by blast+
  from assms saturated_loop_exact[of "refill e" s "lag e" "clock s" 0]
  obtain k where k: "trace (snd ?r) = trace s @ refused_run s k"
    "clock (snd ?r) = clock s + reading 5000 (lag e) 0 k"
    "\<forall>j<k. clock s + reading 5000 (lag e) 0 j \<le> clock s + 300000"
    "window_index (snd ?r) = window_index s + k"
    by blast
  note ev = since_append[OF k(1)]
  have p: "fst (process_img e input_img request_id s)
        = \<lparr>code = 1000, message = ''get token bucket timeout'', data = None\<rparr>"
    using r(1) by (cases ?r) (simp add: process_img_def jimeng_expand_def error_response_def str_exn_def)
  have b: "backoff (since s (snd ?r))" unfolding ev by (rule backoff_refused_run)
  have within: "\<forall>j<k. reading 5000 (lag e) 0 j \<le> 300000" using k(3) by simp
  have past: "300000 < reading 5000 (lag e) 0 k" using r(2) k(2) by simp
  have le: "k \<le> 61"
  proof (rule ccontr)
    assume "\<not> k \<le> 61"
    then have "61 < k" by simp
    with within have "reading 5000 (lag e) 0 61 \<le> 300000" by blast
    moreover have "5000 * 61 \<le> reading 5000 (lag e) 0 61" by (rule reading_lower)
    ultimately show False by simp
  qed
  have at: "length (attempts (since s (snd ?r))) = k" unfolding ev by (rule attempts_refused_run)
  from le ev at k(4) k(2) within past
  have "\<exists>k. k \<le> 61 \<and> since s (snd ?r) = refused_run s k
          \<and> length (attempts (since s (snd ?r))) = k
          \<and> window_index (snd ?r) = window_index s + k
          \<and> clock (snd ?r) = clock s + reading 5000 (lag e) 0 k
          \<and> (\<forall>j<k. reading 5000 (lag e) 0 j \<le> 300000)
          \<and> 300000 < reading 5000 (lag e) 0 k"
    by blast
  with r p b show ?thesis by blast
qed

theorem saturated_acquisition_times_out_witness:
  "windows saturated = [0, 1, 2]
   \<and> available (token_bucket (heap saturated 0)) = 0
   \<and> available (token_bucket (heap saturated 1)) = 0
   \<and> available (token_bucket (heap saturated 2)) = 0
   \<and> (\<forall>i a. refill all_well i a = 0)
   \<and> fst (acquire_loop (lag all_well) (refill all_well) (clock saturated) 0 saturated)
       = Inl (Exception ''get token bucket timeout'')
   \<and> since saturated
        (snd (acquire_loop (lag all_well) (refill all_well) (clock saturated) 0 saturated))
       = refused_run saturated 61
   \<and> length (attempts (since saturated
        (snd (acquire_loop (lag all_well) (refill all_well) (clock saturated) 0 saturated)))) = 61
   \<and> window_index (snd (acquire_loop (lag all_well) (refill all_well) (clock saturated) 0 saturated))
       = 61
   \<and> clock saturated = 0
   \<and> clock (snd (acquire_loop (lag all_well) (refill all_well) (clock saturated) 0 saturated))
       = 305000
   \<and> backoff (since saturated
        (snd (acquire_loop (lag all_well) (refill all_well) (clock saturated) 0 saturated)))
   \<and> fst (process_img all_well ''in.png'' ''r1'' saturated)
       = \<lparr>code = 1000, message = ''get token bucket timeout'', data = None\<rparr>"
proof -
  let ?s' = "snd (acquire_loop (lag all_well) (refill all_well) (clock saturated) 0 saturated)"
  have w: "windows saturated = [0, 1, 2]" by (simp add: fixture_defs)
  have b: "available (token_bucket (heap saturated 0)) = 0
      \<and> available (token_bucket (heap saturated 1)) = 0
      \<and> available (token_bucket (heap saturated 2)) = 0"
    by (simp add: fixture_defs)
  have h1: "windows saturated \<noteq> []" by (simp add: w)
  have h2: "\<forall>a\<in>set (windows saturated). available (token_bucket (heap saturated a)) = 0"
    using b by (simp add: w)
  have h3: "\<forall>i a. refill all_well i a = 0" by (simp add: fixture_defs)
  have lg: "lag all_well = (\<lambda>m. 0)" by (simp add: fixture_defs)
  have c0: "clock saturated = 0" "window_index saturated = 0" by (simp_all add: fixture_defs)
  note t = saturated_acquisition_times_out[OF h1 h2 h3, of "''in.png''" "''r1''"]
  from t obtain k where k: "k \<le> 61" "since saturated ?s' = refused_run saturated k"
    "length (attempts (since saturated ?s')) = k"
    "window_index ?s' = window_index saturated + k"
    "clock ?s' = clock saturated + reading 5000 (lag all_well) 0 k"
    "300000 < reading 5000 (lag all_well) 0 k"
    by blast
  from k(6) have "300000 < 5000 * k" unfolding lg reading_steady .
  with k(1) have k61: "k = 61" by simp
  have cl: "clock ?s' = 305000" using k(5) unfolding lg reading_steady k61 c0 by simp
  have ix: "window_index ?s' = 61" using k(4) unfolding k61 c0 by simp
  from t w b h3 k(2,3) cl ix c0(1) show ?thesis unfolding k61 by blast
qed

subsection \<open>A job that acquired a worker\<close>

lemma acquired_facts:
  assumes "fst (acquire_loop (lag e) (refill e) (clock s) 0 s) = Inr w"
  shows "\<exists>evs. trace (snd (acquire_loop (lag e) (refill e) (clock s) 0 s)) = trace s @ evs
      \<and> acquired evs = [w] \<and> releases evs = [] \<and> alerts evs = [] \<and> connects evs = []"
    and "windows (snd (acquire_loop (lag e) (refill e) (clock s) 0 s)) = windows s"
    and "name (heap (snd (acquire_loop (lag e) (refill e) (clock s) 0 s)) a) = name (heap s a)"
    and "instance_handle (heap (snd (acquire_loop (lag e) (refill e) (clock s) 0 s)) a)
         = instance_handle (heap s a)"
    and "w \<in> set (windows s)"
  using acquire_loop_acq_post[of s "lag e" "refill e" "clock s" 0] assms
  unfolding acq_post_def by auto

lemma jimeng_expand_acquired:
  assumes "fst (acquire_loop (lag e) (refill e) (clock s) 0 s) = Inr w"
  shows "jimeng_expand e p rid s
    = run_window e w p (snd (acquire_loop (lag e) (refill e) (clock s) 0 s))"
  using assms by (cases "acquire_loop (lag e) (refill e) (clock s) 0 s") (simp add: jimeng_expand_def)

lemma since_trans:
  "trace s1 = trace s @ evs1 \<Longrightarrow> trace s2 = trace s1 @ evs2 \<Longrightarrow> since s s2 = evs1 @ since s1 s2"
  by (simp add: since_def)

lemma reached_page_body:
  assumes acq: "fst (acquire_loop (lag e) (refill e) (clock s) 0 s) = Inr w"
    and ens: "fst (ensure_instance e w (snd (acquire_loop (lag e) (refill e) (clock s) 0 s))) = None"
    and np: "new_page e = None"
    and pb: "page_body e (name (heap s w)) p
               (snd (ensure_instance e w (snd (acquire_loop (lag e) (refill e) (clock s) 0 s))))
             = (r, s3)"
    and tr: "trace s3
             = trace (snd (ensure_instance e w (snd (acquire_loop (lag e) (refill e) (clock s) 0 s))))
               @ evs"
  shows "fst (jimeng_expand e p rid s) = r"
    and "windows (snd (jimeng_expand e p rid s)) = windows s3"
    and "alerts (since s (snd (jimeng_expand e p rid s))) = alerts evs"
    and "releases (since s (snd (jimeng_expand e p rid s))) = releases evs @ [w]"
    and "acquired (since s (snd (jimeng_expand e p rid s))) = [w] @ acquired evs"
proof -
  let ?s1 = "snd (acquire_loop (lag e) (refill e) (clock s) 0 s)"
  let ?s2 = "snd (ensure_instance e w ?s1)"
  note a = acquired_facts[OF acq]
  from a(1) obtain evs1 where evs1: "trace ?s1 = trace s @ evs1" "acquired evs1 = [w]"
    "releases evs1 = []" "alerts evs1 = []" by blast
  obtain s2 where e2: "ensure_instance e w ?s1 = (None, s2)"
    using ens by (cases "ensure_instance e w ?s1") simp
  then have s2: "?s2 = s2" by simp
  note f = ensure_instance_facts[OF e2]
  have nm: "name (heap ?s1 w) = name (heap s w)" by (rule a(3))
  have run: "run_window e w p ?s1 = (r, finally_clause e w True s3)"
    using np pb unfolding s2 by (simp add: run_window_def Let_def nm e2)
  have je: "jimeng_expand e p rid s = (r, finally_clause e w True s3)"
    unfolding jimeng_expand_acquired[OF acq] by (rule run)
  let ?c = "if instance_handle (heap ?s1 w) = None then [Connect w] else []"
  let ?f = "Release w # (if machine e \<noteq> ''MY_DEV1'' then [PageClose] else [])"
  have t: "trace (finally_clause e w True s3) = trace s @ (evs1 @ ?c @ evs @ ?f)"
    using tr unfolding s2 by (simp add: finally_clause_facts f(5) evs1(1))
  show "fst (jimeng_expand e p rid s) = r" by (simp add: je)
  show "windows (snd (jimeng_expand e p rid s)) = windows s3"
    by (simp add: je finally_clause_facts)
  show "alerts (since s (snd (jimeng_expand e p rid s))) = alerts evs"
    unfolding je snd_conv since_append[OF t] by (simp add: evs1)
  show "releases (since s (snd (jimeng_expand e p rid s))) = releases evs @ [w]"
    unfolding je snd_conv since_append[OF t] by (simp add: evs1)
  show "acquired (since s (snd (jimeng_expand e p rid s))) = [w] @ acquired evs"
    unfolding je snd_conv since_append[OF t] by (simp add: evs1)
qed

lemma before_page_body:
  assumes acq: "fst (acquire_loop (lag e) (refill e) (clock s) 0 s) = Inr w"
  shows "windows (snd (ensure_instance e w (snd (acquire_loop (lag e) (refill e) (clock s) 0 s))))
         = windows s"
    and "name (heap (snd (ensure_instance e w (snd (acquire_loop (lag e) (refill e) (clock s) 0 s)))) a)
         = name (heap s a)"
proof -
  let ?s1 = "snd (acquire_loop (lag e) (refill e) (clock s) 0 s)"
  note a = acquired_facts[OF acq]
  have e2: "ensure_instance e w ?s1 = (fst (ensure_instance e w ?s1), snd (ensure_instance e w ?s1))"
    by simp
  note f = ensure_instance_facts[OF e2]
  show "windows (snd (ensure_instance e w ?s1)) = windows s" by (simp add: f(1) a(2))
  show "name (heap (snd (ensure_instance e w ?s1)) a) = name (heap s a)" by (simp add: f(3) a(3))
qed

lemma never_tried_again:
  assumes "\<forall>a\<in>set (windows s). name (heap s a) \<noteq> n" and "name (heap s a) = n"
  shows "a \<notin> set (attempts (since s (snd (serve js s))))"
proof -
  have "serve_post (length js) s (snd (serve js s))" by (rule serve_serve_post)
  then obtain evs where tr: "trace (snd (serve js s)) = trace s @ evs"
    and sub: "set (attempts evs) \<subseteq> set (windows s)"
    unfolding serve_post_def by blast
  from assms sub show ?thesis unfolding since_append[OF tr] by blast
qed

lemma credit_ok_check: "credit_ok e \<Longrightarrow> credit_check e n s = (None, s)"
  by (auto simp: credit_ok_def credit_check_def split: sum.splits)

lemma process_img_code:
  "fst (jimeng_expand e p rid s) = Inl x \<Longrightarrow>
   code (fst (process_img e p rid s)) = (case x of BizException c m \<Rightarrow> c | _ \<Rightarrow> 1000)"
  by (cases "jimeng_expand e p rid s") (simp add: process_img_def error_response_def split: exn.splits)

lemmas more_fixture_defs = refused_connection_def page_timeout_def rate_limited_def
  goto_timeout_def low_job_def dev_pool_def dev_low_credit_def

lemma emptied_windows: "windows emptied = []"
  by (simp add: emptied_def run_defs fixture_defs more_fixture_defs)

subsection \<open>The permit and the pool on the failure paths\<close>

text \<open>
  C1. The permit is released once on every path through the outer \<open>try\<close>
  (\<open>run_window_releases\<close>), but the statement of lines 293-297 stands before the
  \<open>try\<close>: when the job has acquired a worker without a browser handle and
  \<open>connect_over_cdp\<close> raises, the exception leaves \<open>jimeng_expand\<close> with no
  \<open>release()\<close>, and the bucket keeps the permit.
\<close>

theorem permit_leaks_when_connect_fails:
  assumes "fst (acquire_loop (lag e) (refill e) (clock s) 0 s) = Inr w"
    and "instance_handle (heap s w) = None"
    and "connect_over_cdp e = Inl err"
  shows "fst (jimeng_expand e p rid s) = Inl (Raised err)
    \<and> acquired (since s (snd (jimeng_expand e p rid s))) = [w]
    \<and> releases (since s (snd (jimeng_expand e p rid s))) = []
    \<and> token_bucket (heap (snd (jimeng_expand e p rid s)) w)
        = token_bucket (heap (snd (acquire_loop (lag e) (refill e) (clock s) 0 s)) w)"
proof -
  let ?s1 = "snd (acquire_loop (lag e) (refill e) (clock s) 0 s)"
  note a = acquired_facts[OF assms(1)]
  from a(1) obtain evs where evs: "trace ?s1 = trace s @ evs" "acquired evs = [w]"
    "releases evs = []" by blast
  have h: "instance_handle (heap ?s1 w) = None" using a(4) assms(2) by simp
  have run: "run_window e w p ?s1 = (Inl (Raised err), emit (Connect w) ?s1)"
    using h assms(3)
    by (simp add: run_window_def ensure_instance_def begin_instance_def finish_instance_def)
  have je: "jimeng_expand e p rid s = (Inl (Raised err), emit (Connect w) ?s1)"
    unfolding jimeng_expand_acquired[OF assms(1)] by (rule run)
  have tr: "trace (emit (Connect w) ?s1) = trace s @ evs @ [Connect w]"
    by (simp add: emit_def evs(1))
  show ?thesis unfolding je using evs(2,3)
    by (simp add: since_append[OF tr]) (simp add: emit_def)
qed

theorem permit_leaks_when_connect_fails_witness:
  "fst (acquire_loop (lag refused_connection) (refill refused_connection) (clock pool3) 0 pool3) = Inr 0
   \<and> instance_handle (heap pool3 0) = None
   \<and> connect_over_cdp refused_connection = Inl (LibError ''connect ECONNREFUSED'')
   \<and> fst (jimeng_expand refused_connection ''in.png'' ''r1'' pool3)
       = Inl (Raised (LibError ''connect ECONNREFUSED''))
   \<and> acquired (since pool3 (snd (jimeng_expand refused_connection ''in.png'' ''r1'' pool3))) = [0]
   \<and> releases (since pool3 (snd (jimeng_expand refused_connection ''in.png'' ''r1'' pool3))) = []
   \<and> available (token_bucket (heap pool3 0)) = 4
   \<and> available (token_bucket (heap (snd (jimeng_expand refused_connection ''in.png'' ''r1'' pool3)) 0)) = 3"
proof -
  have h1: "fst (acquire_loop (lag refused_connection) (refill refused_connection) (clock pool3) 0 pool3) = Inr 0"
    by (simp add: run_defs fixture_defs more_fixture_defs)
  have h2: "instance_handle (heap pool3 0) = None" by (simp add: fixture_defs)
  have h3: "connect_over_cdp refused_connection = Inl (LibError ''connect ECONNREFUSED'')"
    by (simp add: fixture_defs more_fixture_defs)
  have b: "available (token_bucket (heap pool3 0)) = 4
      \<and> available (token_bucket (heap (snd (jimeng_expand refused_connection ''in.png'' ''r1'' pool3)) 0)) = 3"
    by (simp add: run_defs fixture_defs more_fixture_defs)
  from permit_leaks_when_connect_fails[OF h1 h2 h3, of "''in.png''" "''r1''"] h1 h2 h3 b
  show ?thesis by blast
qed

text \<open>
  C2. On an empty pool the first pass of the loop raises \<open>ZeroDivisionError\<close> at
  \<open>window_index % len(windows)\<close> (unless 300 seconds have passed since the start):
  no attempt, no sleep; \<open>process_img\<close> answers it with the code 1000 and the
  interpreter's text, the code it also gives the timeout.
\<close>

theorem empty_pool_raises_zero_division:
  assumes "windows s = []" and "lag e 0 \<le> 300000"
  shows "jimeng_expand e p rid s = (Inl ZeroDivisionError, s\<lparr>clock := clock s + lag e 0\<rparr>)
    \<and> fst (process_img e p rid s)
        = \<lparr>code = 1000, message = interpreter_text e ZeroDivisionError, data = None\<rparr>
    \<and> since s (snd (process_img e p rid s)) = []"
proof -
  have "acquire_loop (lag e) (refill e) (clock s) 0 s
      = (Inl ZeroDivisionError, s\<lparr>clock := clock s + lag e 0\<rparr>)"
    using assms by (intro acquire_loop_empty) simp_all
  then have je: "jimeng_expand e p rid s = (Inl ZeroDivisionError, s\<lparr>clock := clock s + lag e 0\<rparr>)"
    by (simp add: jimeng_expand_def)
  then show ?thesis
    by (simp add: process_img_def error_response_def str_exn_def since_def)
qed

theorem empty_pool_raises_zero_division_witness:
  "windows emptied = [] \<and> lag all_well 0 \<le> 300000
   \<and> jimeng_expand all_well ''in.png'' ''r4'' emptied
       = (Inl ZeroDivisionError, emptied\<lparr>clock := clock emptied + lag all_well 0\<rparr>)
   \<and> fst (process_img all_well ''in.png'' ''r4'' emptied)
       = \<lparr>code = 1000, message = interpreter_text all_well ZeroDivisionError, data = None\<rparr>
   \<and> since emptied (snd (process_img all_well ''in.png'' ''r4'' emptied)) = []"
proof -
  have h2: "lag all_well 0 \<le> 300000" by (simp add: fixture_defs)
  from empty_pool_raises_zero_division[OF emptied_windows h2, of "''in.png''" "''r4''"]
    emptied_windows h2
  show ?thesis by blast
qed

text \<open>
  C4, as the claim states it, fails on the developer's machine: the account is short
  of credit, the worker is removed and the job fails with 1100, but no alert is sent.
\<close>

theorem alert_missing_on_dev_machine:
  "user_credit dev_low_credit = Inr (good_response\<lparr>gift_credit := Some 14\<rparr>)
   \<and> total_credit (good_response\<lparr>gift_credit := Some 14\<rparr>) < 15
   \<and> fst (jimeng_expand dev_low_credit ''test.png'' ''r1'' dev_pool)
       = Inl (BizException 1100 (tagged (name (heap dev_pool 0)) text_insufficient_credit))
   \<and> windows (snd (jimeng_expand dev_low_credit ''test.png'' ''r1'' dev_pool)) = []
   \<and> alerts (since dev_pool (snd (jimeng_expand dev_low_credit ''test.png'' ''r1'' dev_pool))) = []"
  by (simp add: since_def run_defs fixture_defs more_fixture_defs)

text \<open>
  C4, amended. When a job on the worker \<open>w\<close> reads a well-formed credit response
  with a total below 15, it raises the business error 1100 (insufficient credit),
  \<open>process_img\<close> answers with the code 1100, every worker that carries the name of
  \<open>w\<close> is removed from the pool and is never tried by any later run of jobs, the
  permit is released, and one alert is sent, unless the machine is \<open>MY_DEV\<close>, where
  none is sent.
\<close>

theorem low_credit_evicts:
  assumes acq: "fst (acquire_loop (lag e) (refill e) (clock s) 0 s) = Inr w"
    and ens: "fst (ensure_instance e w (snd (acquire_loop (lag e) (refill e) (clock s) 0 s))) = None"
    and np: "new_page e = None"
    and uc: "user_credit e = Inr r" "status r = 200" "ret r = Some ''0''" "total_credit r < 15"
  shows "fst (jimeng_expand e p rid s)
        = Inl (BizException 1100 (tagged (name (heap s w)) text_insufficient_credit))
    \<and> code (fst (process_img e p rid s)) = 1100
    \<and> windows (snd (jimeng_expand e p rid s))
        = filter (\<lambda>a. name (heap s a) \<noteq> name (heap s w)) (windows s)
    \<and> w \<notin> set (windows (snd (jimeng_expand e p rid s)))
    \<and> alerts (since s (snd (jimeng_expand e p rid s)))
        = (if machine e \<noteq> ''MY_DEV''
           then [tagged (name (heap s w)) text_insufficient_credit] else [])
    \<and> releases (since s (snd (jimeng_expand e p rid s))) = [w]
    \<and> (\<forall>js a. name (heap s a) = name (heap s w) \<longrightarrow>
          a \<notin> set (attempts (since (snd (jimeng_expand e p rid s))
                                (snd (serve js (snd (jimeng_expand e p rid s)))))))"
proof -
  let ?n = "name (heap s w)"
  let ?m = "tagged ?n text_insufficient_credit"
  let ?s2 = "snd (ensure_instance e w (snd (acquire_loop (lag e) (refill e) (clock s) 0 s)))"
  let ?s3 = "sendAlert e ?m (evict ?n ?s2)"
  let ?evs = "if machine e \<noteq> ''MY_DEV'' then [SendAlert ?m] else []"
  let ?s' = "snd (jimeng_expand e p rid s)"
  have pb: "page_body e ?n p ?s2 = (Inl (BizException 1100 ?m), ?s3)"
    using uc by (simp add: page_body_def credit_check_def Let_def)
  have tr: "trace ?s3 = trace ?s2 @ ?evs"
    by (simp add: sendAlert_def evict_def emit_def)
  note r = reached_page_body[OF acq ens np pb tr, of rid]
  note b = before_page_body[OF acq]
  have w3: "windows ?s3 = filter (\<lambda>a. name (heap s a) \<noteq> ?n) (windows s)"
    by (simp add: sendAlert_def evict_def emit_def b)
  have res: "fst (jimeng_expand e p rid s) = Inl (BizException 1100 ?m)" by (rule r(1))
  have win: "windows ?s' = filter (\<lambda>a. name (heap s a) \<noteq> ?n) (windows s)"
    unfolding r(2) by (rule w3)
  have code: "code (fst (process_img e p rid s)) = 1100"
    using res by (cases "jimeng_expand e p rid s") (simp add: process_img_def error_response_def)
  have al: "alerts (since s ?s') = (if machine e \<noteq> ''MY_DEV'' then [?m] else [])"
    unfolding r(3) by simp
  have rel: "releases (since s ?s') = [w]" unfolding r(4) by simp
  have jp: "job_post s ?s'"
    by (rule jimeng_expand_post[of e p rid s "fst (jimeng_expand e p rid s)"]) simp
  then have nm: "\<And>a. name (heap ?s' a) = name (heap s a)" unfolding job_post_def by blast
  have gone: "\<forall>a\<in>set (windows ?s'). name (heap ?s' a) \<noteq> ?n"
    unfolding win by (simp add: nm)
  have never: "\<forall>js a. name (heap s a) = ?n \<longrightarrow>
          a \<notin> set (attempts (since ?s' (snd (serve js ?s'))))"
    using never_tried_again[OF gone] nm by simp
  have "w \<notin> set (windows ?s')" unfolding win by simp
  with res code win al rel never show ?thesis by blast
qed

theorem low_credit_evicts_witness:
  "fst (acquire_loop (lag low_credit) (refill low_credit) (clock pool3) 0 pool3) = Inr 0
   \<and> fst (ensure_instance low_credit 0
            (snd (acquire_loop (lag low_credit) (refill low_credit) (clock pool3) 0 pool3))) = None
   \<and> new_page low_credit = None
   \<and> user_credit low_credit = Inr (good_response\<lparr>gift_credit := Some 14\<rparr>)
   \<and> status (good_response\<lparr>gift_credit := Some 14\<rparr>) = 200
   \<and> ret (good_response\<lparr>gift_credit := Some 14\<rparr>) = Some ''0''
   \<and> total_credit (good_response\<lparr>gift_credit := Some 14\<rparr>) < 15
   \<and> machine low_credit \<noteq> ''MY_DEV''
   \<and> fst (jimeng_expand low_credit ''in.png'' ''r1'' pool3)
       = Inl (BizException 1100 (tagged (name (heap pool3 0)) text_insufficient_credit))
   \<and> code (fst (process_img low_credit ''in.png'' ''r1'' pool3)) = 1100
   \<and> 0 \<notin> set (windows (snd (jimeng_expand low_credit ''in.png'' ''r1'' pool3)))
   \<and> alerts (since pool3 (snd (jimeng_expand low_credit ''in.png'' ''r1'' pool3)))
       = [tagged (name (heap pool3 0)) text_insufficient_credit]
   \<and> releases (since pool3 (snd (jimeng_expand low_credit ''in.png'' ''r1'' pool3))) = [0]
   \<and> 0 \<notin> set (attempts (since (snd (jimeng_expand low_credit ''in.png'' ''r1'' pool3))
        (snd (serve [well_job, well_job, well_job]
               (snd (jimeng_expand low_credit ''in.png'' ''r1'' pool3))))))"
proof -
  have h1: "fst (acquire_loop (lag low_credit) (refill low_credit) (clock pool3) 0 pool3) = Inr 0"
    by (simp add: run_defs fixture_defs)
  have h2: "fst (ensure_instance low_credit 0
            (snd (acquire_loop (lag low_credit) (refill low_credit) (clock pool3) 0 pool3))) = None"
    by (simp add: run_defs fixture_defs)
  have h3: "new_page low_credit = None" by (simp add: fixture_defs)
  have h4: "user_credit low_credit = Inr (good_response\<lparr>gift_credit := Some 14\<rparr>)"
    by (simp add: fixture_defs)
  have h5: "status (good_response\<lparr>gift_credit := Some 14\<rparr>) = 200"
    by (simp add: fixture_defs)
  have h6: "ret (good_response\<lparr>gift_credit := Some 14\<rparr>) = Some ''0''"
    by (simp add: fixture_defs)
  have h7: "total_credit (good_response\<lparr>gift_credit := Some 14\<rparr>) < 15"
    by (simp add: total_credit_def fixture_defs)
  have m: "machine low_credit \<noteq> ''MY_DEV''" by (simp add: fixture_defs)
  note t = low_credit_evicts[OF h1 h2 h3 h4 h5 h6 h7, of "''in.png''" "''r1''"]
  from t have never: "0 \<notin> set (attempts (since (snd (jimeng_expand low_credit ''in.png'' ''r1'' pool3))
        (snd (serve [well_job, well_job, well_job]
               (snd (jimeng_expand low_credit ''in.png'' ''r1'' pool3))))))"
    by blast
  from t m have al: "alerts (since pool3 (snd (jimeng_expand low_credit ''in.png'' ''r1'' pool3)))
       = [tagged (name (heap pool3 0)) text_insufficient_credit]"
    by simp
  from t h1 h2 h3 h4 h5 h6 h7 m never al show ?thesis by blast
qed

text \<open>
  C5, as the claim states it, fails for the timeout of the page steps: the handler of
  lines 368-376 removes the worker from the pool.
\<close>

theorem page_timeout_evicts:
  "fst (jimeng_expand page_timeout ''in.png'' ''r1'' pool3)
     = Inl (BizException 1006 (tagged (name (heap pool3 0)) text_page_timeout))
   \<and> windows pool3 = [0, 1, 2]
   \<and> windows (snd (jimeng_expand page_timeout ''in.png'' ''r1'' pool3)) = [1, 2]"
  by (simp add: run_defs fixture_defs more_fixture_defs)

text \<open>
  C5, amended. A rate-limit response of the provider (\<open>ret\<close> \<open>'1'\<close>, \<open>errmsg\<close>
  \<open>'api rate limit'\<close>) leaves the pool unchanged, sends no alert and fails the job with
  the business error 1003; a Playwright timeout of the first navigation leaves the pool
  unchanged as well and fails the job with the generic code 1000. A Playwright timeout
  of the page steps inside the inner \<open>try\<close> removes the worker from the pool, alerts
  (unless the machine is \<open>MY_DEV\<close>) and fails the job with the business error 1006.
  In all three the permit is released.
\<close>

theorem rate_limit_keeps_timeout_evicts:
  "(on_page e s w \<and> credit_ok e \<and> check_image e (name (heap s w)) p = None
      \<and> goto_image_edit e = None \<and> page_steps e = None
      \<and> painting e = Inr r \<and> ret r = Some ''1'' \<and> errmsg r = Some ''api rate limit''
    \<longrightarrow> fst (jimeng_expand e p rid s)
          = Inl (BizException 1003 (tagged (name (heap s w)) text_rate_limit))
        \<and> code (fst (process_img e p rid s)) = 1003
        \<and> windows (snd (jimeng_expand e p rid s)) = windows s
        \<and> alerts (since s (snd (jimeng_expand e p rid s))) = []
        \<and> releases (since s (snd (jimeng_expand e p rid s))) = [w])
   \<and> (on_page e' s' w' \<and> user_credit e' = Inl (PlaywrightTimeoutError m')
    \<longrightarrow> fst (jimeng_expand e' p' rid' s') = Inl (Raised (PlaywrightTimeoutError m'))
        \<and> code (fst (process_img e' p' rid' s')) = 1000
        \<and> windows (snd (jimeng_expand e' p' rid' s')) = windows s'
        \<and> alerts (since s' (snd (jimeng_expand e' p' rid' s'))) = []
        \<and> releases (since s' (snd (jimeng_expand e' p' rid' s'))) = [w'])
   \<and> (on_page e'' s'' w'' \<and> credit_ok e'' \<and> check_image e'' (name (heap s'' w'')) p'' = None
      \<and> goto_image_edit e'' = None \<and> page_steps e'' = Some (PlaywrightTimeoutError m'')
      \<and> close_in_handler e'' = None
    \<longrightarrow> fst (jimeng_expand e'' p'' rid'' s'')
          = Inl (BizException 1006 (tagged (name (heap s'' w'')) text_page_timeout))
        \<and> code (fst (process_img e'' p'' rid'' s'')) = 1006
        \<and> windows (snd (jimeng_expand e'' p'' rid'' s''))
            = filter (\<lambda>a. name (heap s'' a) \<noteq> name (heap s'' w'')) (windows s'')
        \<and> alerts (since s'' (snd (jimeng_expand e'' p'' rid'' s'')))
            = (if machine e'' \<noteq> ''MY_DEV''
               then [tagged (name (heap s'' w'')) text_page_timeout] else [])
        \<and> releases (since s'' (snd (jimeng_expand e'' p'' rid'' s''))) = [w''])"
proof (intro conjI impI)
  let ?n = "name (heap s w)"
  let ?s2 = "snd (ensure_instance e w (snd (acquire_loop (lag e) (refill e) (clock s) 0 s)))"
  assume h: "on_page e s w \<and> credit_ok e \<and> check_image e ?n p = None
      \<and> goto_image_edit e = None \<and> page_steps e = None
      \<and> painting e = Inr r \<and> ret r = Some ''1'' \<and> errmsg r = Some ''api rate limit''"
  then have acq: "fst (acquire_loop (lag e) (refill e) (clock s) 0 s) = Inr w"
    and ens: "fst (ensure_instance e w (snd (acquire_loop (lag e) (refill e) (clock s) 0 s))) = None"
    and np: "new_page e = None"
    unfolding on_page_def by simp_all
  have pb: "page_body e ?n p ?s2 = (Inl (BizException 1003 (tagged ?n text_rate_limit)), ?s2)"
    using h by (simp add: page_body_def credit_ok_check page_interaction_def
        painting_result_def painting_failure_def)
  have tr: "trace ?s2 = trace ?s2 @ []" by simp
  note r = reached_page_body[OF acq ens np pb tr, of rid]
  note b = before_page_body[OF acq]
  show "fst (jimeng_expand e p rid s) = Inl (BizException 1003 (tagged ?n text_rate_limit))"
    by (rule r(1))
  then show "code (fst (process_img e p rid s)) = 1003" by (simp add: process_img_code)
  show "windows (snd (jimeng_expand e p rid s)) = windows s" unfolding r(2) by (rule b(1))
  show "alerts (since s (snd (jimeng_expand e p rid s))) = []" unfolding r(3) by simp
  show "releases (since s (snd (jimeng_expand e p rid s))) = [w]" unfolding r(4) by simp
next
  let ?n = "name (heap s' w')"
  let ?s2 = "snd (ensure_instance e' w' (snd (acquire_loop (lag e') (refill e') (clock s') 0 s')))"
  assume h: "on_page e' s' w' \<and> user_credit e' = Inl (PlaywrightTimeoutError m')"
  then have acq: "fst (acquire_loop (lag e') (refill e') (clock s') 0 s') = Inr w'"
    and ens: "fst (ensure_instance e' w' (snd (acquire_loop (lag e') (refill e') (clock s') 0 s'))) = None"
    and np: "new_page e' = None"
    unfolding on_page_def by simp_all
  have pb: "page_body e' ?n p' ?s2 = (Inl (Raised (PlaywrightTimeoutError m')), ?s2)"
    using h by (simp add: page_body_def credit_check_def)
  have tr: "trace ?s2 = trace ?s2 @ []" by simp
  note r = reached_page_body[OF acq ens np pb tr, of rid']
  note b = before_page_body[OF acq]
  show "fst (jimeng_expand e' p' rid' s') = Inl (Raised (PlaywrightTimeoutError m'))"
    by (rule r(1))
  then show "code (fst (process_img e' p' rid' s')) = 1000" by (simp add: process_img_code)
  show "windows (snd (jimeng_expand e' p' rid' s')) = windows s'" unfolding r(2) by (rule b(1))
  show "alerts (since s' (snd (jimeng_expand e' p' rid' s'))) = []" unfolding r(3) by simp
  show "releases (since s' (snd (jimeng_expand e' p' rid' s'))) = [w']" unfolding r(4) by simp
next
  let ?n = "name (heap s'' w'')"
  let ?m = "tagged ?n text_page_timeout"
  let ?s2 = "snd (ensure_instance e'' w''
                (snd (acquire_loop (lag e'') (refill e'') (clock s'') 0 s'')))"
  let ?s3 = "sendAlert e'' ?m (emit PageClose (evict ?n ?s2))"
  let ?evs = "PageClose # (if machine e'' \<noteq> ''MY_DEV'' then [SendAlert ?m] else [])"
  assume h: "on_page e'' s'' w'' \<and> credit_ok e'' \<and> check_image e'' ?n p'' = None
      \<and> goto_image_edit e'' = None \<and> page_steps e'' = Some (PlaywrightTimeoutError m'')
      \<and> close_in_handler e'' = None"
  then have acq: "fst (acquire_loop (lag e'') (refill e'') (clock s'') 0 s'') = Inr w''"
    and ens: "fst (ensure_instance e'' w''
                (snd (acquire_loop (lag e'') (refill e'') (clock s'') 0 s''))) = None"
    and np: "new_page e'' = None"
    unfolding on_page_def by simp_all
  have pb: "page_body e'' ?n p'' ?s2 = (Inl (BizException 1006 ?m), ?s3)"
    using h by (simp add: page_body_def credit_ok_check page_interaction_def Let_def)
  have tr: "trace ?s3 = trace ?s2 @ ?evs"
    by (simp add: sendAlert_def evict_def emit_def)
  note r = reached_page_body[OF acq ens np pb tr, of rid'']
  note b = before_page_body[OF acq]
  show "fst (jimeng_expand e'' p'' rid'' s'') = Inl (BizException 1006 ?m)" by (rule r(1))
  then show "code (fst (process_img e'' p'' rid'' s'')) = 1006" by (simp add: process_img_code)
  show "windows (snd (jimeng_expand e'' p'' rid'' s''))
      = filter (\<lambda>a. name (heap s'' a) \<noteq> ?n) (windows s'')"
    unfolding r(2) by (simp add: sendAlert_def evict_def emit_def b)
  show "alerts (since s'' (snd (jimeng_expand e'' p'' rid'' s'')))
      = (if machine e'' \<noteq> ''MY_DEV'' then [?m] else [])"
    unfolding r(3) by simp
  show "releases (since s'' (snd (jimeng_expand e'' p'' rid'' s''))) = [w'']"
    unfolding r(4) by simp
qed

theorem rate_limit_keeps_timeout_evicts_witness:
  "on_page rate_limited pool3 0 \<and> credit_ok rate_limited
   \<and> check_image rate_limited (name (heap pool3 0)) ''in.png'' = None
   \<and> goto_image_edit rate_limited = None \<and> page_steps rate_limited = None
   \<and> painting rate_limited = Inr (good_response\<lparr>ret := Some ''1'', errmsg := Some ''api rate limit''\<rparr>)
   \<and> ret (good_response\<lparr>ret := Some ''1'', errmsg := Some ''api rate limit''\<rparr>) = Some ''1''
   \<and> errmsg (good_response\<lparr>ret := Some ''1'', errmsg := Some ''api rate limit''\<rparr>)
       = Some ''api rate limit''
   \<and> code (fst (process_img rate_limited ''in.png'' ''r1'' pool3)) = 1003
   \<and> windows (snd (jimeng_expand rate_limited ''in.png'' ''r1'' pool3)) = windows pool3
   \<and> alerts (since pool3 (snd (jimeng_expand rate_limited ''in.png'' ''r1'' pool3))) = []
   \<and> on_page goto_timeout pool3 0
   \<and> user_credit goto_timeout = Inl (PlaywrightTimeoutError ''Timeout 30000ms exceeded.'')
   \<and> code (fst (process_img goto_timeout ''in.png'' ''r1'' pool3)) = 1000
   \<and> windows (snd (jimeng_expand goto_timeout ''in.png'' ''r1'' pool3)) = windows pool3
   \<and> on_page page_timeout pool3 0 \<and> credit_ok page_timeout
   \<and> check_image page_timeout (name (heap pool3 0)) ''in.png'' = None
   \<and> goto_image_edit page_timeout = None
   \<and> page_steps page_timeout = Some (PlaywrightTimeoutError ''Timeout 30000ms exceeded.'')
   \<and> close_in_handler page_timeout = None
   \<and> code (fst (process_img page_timeout ''in.png'' ''r1'' pool3)) = 1006
   \<and> windows (snd (jimeng_expand page_timeout ''in.png'' ''r1'' pool3))
       = filter (\<lambda>a. name (heap pool3 a) \<noteq> name (heap pool3 0)) (windows pool3)
   \<and> releases (since pool3 (snd (jimeng_expand page_timeout ''in.png'' ''r1'' pool3))) = [0]"
proof -
  have a: "on_page rate_limited pool3 0 \<and> credit_ok rate_limited
     \<and> check_image rate_limited (name (heap pool3 0)) ''in.png'' = None
     \<and> goto_image_edit rate_limited = None \<and> page_steps rate_limited = None
     \<and> painting rate_limited = Inr (good_response\<lparr>ret := Some ''1'', errmsg := Some ''api rate limit''\<rparr>)
     \<and> ret (good_response\<lparr>ret := Some ''1'', errmsg := Some ''api rate limit''\<rparr>) = Some ''1''
     \<and> errmsg (good_response\<lparr>ret := Some ''1'', errmsg := Some ''api rate limit''\<rparr>)
         = Some ''api rate limit''"
    by (simp add: on_page_def credit_ok_def run_defs fixture_defs more_fixture_defs)
  have b: "on_page goto_timeout pool3 0
     \<and> user_credit goto_timeout = Inl (PlaywrightTimeoutError ''Timeout 30000ms exceeded.'')"
    by (simp add: on_page_def run_defs fixture_defs more_fixture_defs)
  have c: "on_page page_timeout pool3 0 \<and> credit_ok page_timeout
     \<and> check_image page_timeout (name (heap pool3 0)) ''in.png'' = None
     \<and> goto_image_edit page_timeout = None
     \<and> page_steps page_timeout = Some (PlaywrightTimeoutError ''Timeout 30000ms exceeded.'')
     \<and> close_in_handler page_timeout = None"
    by (simp add: on_page_def credit_ok_def run_defs fixture_defs more_fixture_defs)
  from rate_limit_keeps_timeout_evicts
    [of rate_limited pool3 0 "''in.png''"
        "good_response\<lparr>ret := Some ''1'', errmsg := Some ''api rate limit''\<rparr>" "''r1''"
        goto_timeout pool3 0 "''Timeout 30000ms exceeded.''" "''in.png''" "''r1''"
        page_timeout pool3 0 "''in.png''" "''Timeout 30000ms exceeded.''" "''r1''"]
    a b c
  show ?thesis by blast
qed

subsection \<open>Opening a window\<close>

lemma open_window_loop_exact:
  "\<exists>k. trace (snd (open_window_loop took reply wid st i s))
         = trace s @ concat (replicate k [Post wid, Sleep 1000]) @ [Post wid]
     \<and> (\<forall>j<k. \<exists>y. open_attempt (reply (i + j)) = Inl y \<and> closing y)
     \<and> (\<forall>j<k. clock s + reading 1000 took i j \<le> st + 300000)
     \<and> open_attempt (reply (i + k)) = fst (open_window_loop took reply wid st i s)
     \<and> clock (snd (open_window_loop took reply wid st i s)) = clock s + reading 1000 took i k
     \<and> (\<forall>x. fst (open_window_loop took reply wid st i s) = Inl x \<and> closing x
            \<longrightarrow> st + 300000 < clock (snd (open_window_loop took reply wid st i s)))"
proof (induction took reply wid st i s rule: open_window_loop.induct)
  case (1 took reply wid st i s)
  let ?s1 = "emit (Post wid) (s\<lparr>clock := clock s + took i\<rparr>)"
  let ?n = "emit (Sleep 1000) (?s1\<lparr>clock := clock ?s1 + 1000\<rparr>)"
  show ?case
  proof (cases "open_attempt (reply i)")
    case (Inr url)
    then have r: "open_window_loop took reply wid st i s = (Inr url, ?s1)"
      by (subst open_window_loop.simps) (simp add: Let_def)
    show ?thesis unfolding r using Inr
      by (intro exI[of _ 0]) (simp add: emit_def)
  next
    case (Inl x)
    show ?thesis
    proof (cases "closing x \<and> \<not> st + 300000 < clock ?s1")
      case False
      then have r: "open_window_loop took reply wid st i s = (Inl x, ?s1)"
        using Inl by (subst open_window_loop.simps) (auto simp: Let_def)
      show ?thesis unfolding r using Inl False
        by (intro exI[of _ 0]) (auto simp: emit_def)
    next
      case True
      then have r: "open_window_loop took reply wid st i s
          = open_window_loop took reply wid st (i + 1) ?n"
        using Inl by (subst open_window_loop.simps) (simp add: Let_def)
      let ?res = "open_window_loop took reply wid st (i + 1) ?n"
      from "1.IH"[OF refl Inl] True obtain k where k:
        "trace (snd ?res) = trace ?n @ concat (replicate k [Post wid, Sleep 1000]) @ [Post wid]"
        "\<forall>j<k. \<exists>y. open_attempt (reply (i + 1 + j)) = Inl y \<and> closing y"
        "\<forall>j<k. clock ?n + reading 1000 took (i + 1) j \<le> st + 300000"
        "open_attempt (reply (i + 1 + k)) = fst ?res"
        "clock (snd ?res) = clock ?n + reading 1000 took (i + 1) k"
        "\<forall>x. fst ?res = Inl x \<and> closing x \<longrightarrow> st + 300000 < clock (snd ?res)"
        by blast
      have cn: "clock ?n = clock s + took i + 1000" by (simp add: emit_def)
      have c1: "clock ?s1 = clock s + took i" by (simp add: emit_def)
      have busy: "\<forall>j<Suc k. \<exists>y. open_attempt (reply (i + j)) = Inl y \<and> closing y"
      proof (intro allI impI)
        fix j assume "j < Suc k"
        show "\<exists>y. open_attempt (reply (i + j)) = Inl y \<and> closing y"
        proof (cases j)
          case 0
          with Inl True show ?thesis by simp
        next
          case (Suc j')
          with \<open>j < Suc k\<close> k(2) show ?thesis by simp
        qed
      qed
      have within: "\<forall>j<Suc k. clock s + reading 1000 took i j \<le> st + 300000"
      proof (intro allI impI)
        fix j assume "j < Suc k"
        show "clock s + reading 1000 took i j \<le> st + 300000"
        proof (cases j)
          case 0
          with True c1 show ?thesis by simp
        next
          case (Suc j')
          with \<open>j < Suc k\<close> k(3) cn show ?thesis by (simp add: add.assoc)
        qed
      qed
      have tr: "trace (snd ?res)
          = trace s @ concat (replicate (Suc k) [Post wid, Sleep 1000]) @ [Post wid]"
        using k(1) by (simp add: emit_def)
      have cl: "clock (snd ?res) = clock s + reading 1000 took i (Suc k)"
        using k(5) cn by simp
      have at: "open_attempt (reply (i + Suc k)) = fst ?res" using k(4) by simp
      show ?thesis unfolding r
        using tr busy within at cl k(6) by blast
    qed
  qed
qed

lemma closing_busy: "closing (Exception (''open window error, err='' @ ''msg: '' @ text_browser_closing))"
  by (simp add: closing_def text_browser_closing_def)

lemma not_closing_refused: "\<not> closing (Raised (LibError ''Connection refused''))"
  by (simp add: closing_def text_browser_closing_def)

lemmas open_defs = open_window_def open_window_loop.simps open_attempt_def closing_def
  busy_reply_def refused_reply_def text_browser_closing_def emit_def Let_def

text \<open>
  C8. \<open>open_window\<close> returns the answer of its last POST. Every POST before the
  last was answered with an error that carries the provider's "closing" text, was read
  at most 300 seconds after the start, and was followed by a pause of one second and a
  new POST; an error with that text is returned (raised again) only when the clock
  reads more than 300 seconds after the start, and then it is not retried. So any
  other error is raised at its first occurrence, with no pause and no further POST;
  the error with the "closing" text is retried until the ceiling of 300 seconds is
  passed, which is after at most 301 retries, and with answers that take no time
  after exactly 301, 301 seconds after the start. (The loop is a total function: its
  termination is proved at its definition.)
\<close>

theorem open_window_retries:
  "\<exists>k. since s (snd (open_window took reply wid s))
         = concat (replicate k [Post wid, Sleep 1000]) @ [Post wid]
     \<and> (\<forall>j<k. \<exists>y. open_attempt (reply j) = Inl y \<and> closing y)
     \<and> open_attempt (reply k) = fst (open_window took reply wid s)
     \<and> (\<forall>x. fst (open_window took reply wid s) = Inl x \<and> closing x
            \<longrightarrow> clock s + 300000 < clock (snd (open_window took reply wid s)))
     \<and> k \<le> 301
     \<and> (\<forall>j<k. reading 1000 took 0 j \<le> 300000)
     \<and> clock (snd (open_window took reply wid s)) = clock s + reading 1000 took 0 k"
proof -
  from open_window_loop_exact[of took reply wid "clock s" 0 s] obtain k where k:
    "trace (snd (open_window took reply wid s))
       = trace s @ concat (replicate k [Post wid, Sleep 1000]) @ [Post wid]"
    "\<forall>j<k. \<exists>y. open_attempt (reply j) = Inl y \<and> closing y"
    "\<forall>j<k. clock s + reading 1000 took 0 j \<le> clock s + 300000"
    "open_attempt (reply k) = fst (open_window took reply wid s)"
    "clock (snd (open_window took reply wid s)) = clock s + reading 1000 took 0 k"
    "\<forall>x. fst (open_window took reply wid s) = Inl x \<and> closing x
        \<longrightarrow> clock s + 300000 < clock (snd (open_window took reply wid s))"
    unfolding open_window_def by auto
  have within: "\<forall>j<k. reading 1000 took 0 j \<le> 300000" using k(3) by simp
  have le: "k \<le> 301"
  proof (rule ccontr)
    assume "\<not> k \<le> 301"
    then have "301 < k" by simp
    with within have "reading 1000 took 0 301 \<le> 300000" by blast
    moreover have "1000 * 301 \<le> reading 1000 took 0 301" by (rule reading_lower)
    ultimately show False by simp
  qed
  show ?thesis
    by (rule exI[of _ k]) (use k(2,4,5,6) within le in \<open>simp add: since_append[OF k(1)]\<close>)
qed

theorem open_window_retries_witness:
  "fst (open_window (\<lambda>i. 0) (\<lambda>i. busy_reply) ''id-028'' pool3)
     = Inl (Exception (''open window error, err='' @ ''msg: '' @ text_browser_closing))
   \<and> closing (Exception (''open window error, err='' @ ''msg: '' @ text_browser_closing))
   \<and> clock pool3 = 0
   \<and> clock (snd (open_window (\<lambda>i. 0) (\<lambda>i. busy_reply) ''id-028'' pool3)) = 301000
   \<and> since pool3 (snd (open_window (\<lambda>i. 0) (\<lambda>i. busy_reply) ''id-028'' pool3))
       = concat (replicate 301 [Post ''id-028'', Sleep 1000]) @ [Post ''id-028'']
   \<and> \<not> closing (Raised (LibError ''Connection refused''))
   \<and> fst (open_window (\<lambda>i. 0) (\<lambda>i. if i = 0 then busy_reply else refused_reply) ''id-028'' pool3)
       = Inl (Raised (LibError ''Connection refused''))
   \<and> since pool3
        (snd (open_window (\<lambda>i. 0) (\<lambda>i. if i = 0 then busy_reply else refused_reply) ''id-028'' pool3))
       = [Post ''id-028'', Sleep 1000, Post ''id-028'']
   \<and> fst (open_window (\<lambda>i. 0) (\<lambda>i. refused_reply) ''id-028'' pool3)
       = Inl (Raised (LibError ''Connection refused''))
   \<and> since pool3 (snd (open_window (\<lambda>i. 0) (\<lambda>i. refused_reply) ''id-028'' pool3))
       = [Post ''id-028'']
   \<and> fst (open_window (\<lambda>i. 300001) (\<lambda>i. busy_reply) ''id-028'' pool3)
       = Inl (Exception (''open window error, err='' @ ''msg: '' @ text_browser_closing))
   \<and> since pool3 (snd (open_window (\<lambda>i. 300001) (\<lambda>i. busy_reply) ''id-028'' pool3))
       = [Post ''id-028'']"
proof -
  let ?x = "Exception (''open window error, err='' @ ''msg: '' @ text_browser_closing)"
  let ?run = "open_window (\<lambda>i. 0) (\<lambda>i. busy_reply) ''id-028'' pool3"
  have a: "open_attempt busy_reply = Inl ?x"
    by (simp add: open_attempt_def busy_reply_def)
  have c0: "clock pool3 = 0" by (simp add: pool3_def)
  from open_window_retries[of pool3 "\<lambda>i. 0" "\<lambda>i. busy_reply" "''id-028''"]
  obtain k where k:
    "since pool3 (snd ?run) = concat (replicate k [Post ''id-028'', Sleep 1000]) @ [Post ''id-028'']"
    "open_attempt busy_reply = fst ?run"
    "\<forall>x. fst ?run = Inl x \<and> closing x \<longrightarrow> clock pool3 + 300000 < clock (snd ?run)"
    "k \<le> 301"
    "clock (snd ?run) = clock pool3 + reading 1000 (\<lambda>i. 0) 0 k"
    by blast
  from k(2) a have r: "fst ?run = Inl ?x" by simp
  with k(3) closing_busy have "clock pool3 + 300000 < clock (snd ?run)" by blast
  then have "300000 < 1000 * k" unfolding k(5) reading_steady by simp
  with k(4) have k301: "k = 301" by simp
  have cl: "clock (snd ?run) = 301000" unfolding k(5) reading_steady k301 c0 by simp
  have e: "fst (open_window (\<lambda>i. 0) (\<lambda>i. if i = 0 then busy_reply else refused_reply) ''id-028'' pool3)
       = Inl (Raised (LibError ''Connection refused''))
     \<and> since pool3
        (snd (open_window (\<lambda>i. 0) (\<lambda>i. if i = 0 then busy_reply else refused_reply) ''id-028'' pool3))
       = [Post ''id-028'', Sleep 1000, Post ''id-028'']
     \<and> fst (open_window (\<lambda>i. 0) (\<lambda>i. refused_reply) ''id-028'' pool3)
       = Inl (Raised (LibError ''Connection refused''))
     \<and> since pool3 (snd (open_window (\<lambda>i. 0) (\<lambda>i. refused_reply) ''id-028'' pool3))
       = [Post ''id-028'']
     \<and> fst (open_window (\<lambda>i. 300001) (\<lambda>i. busy_reply) ''id-028'' pool3) = Inl ?x
     \<and> since pool3 (snd (open_window (\<lambda>i. 300001) (\<lambda>i. busy_reply) ''id-028'' pool3))
       = [Post ''id-028'']"
    by (simp add: since_def open_defs pool3_def)
  from r closing_busy c0 cl k(1)[unfolded k301] not_closing_refused e show ?thesis by blast
qed

subsection \<open>The first use of a worker\<close>

lemma first_segment_facts:
  assumes "fst (first_segment e s) = Inr (w, c)"
  shows "c = (instance_handle (heap s w) = None)"
    and "instance_handle (heap (snd (first_segment e s)) a) = instance_handle (heap s a)"
    and "\<exists>evs. trace (snd (first_segment e s)) = trace s @ evs
           \<and> connects evs = (if c then [w] else [])"
proof -
  let ?r = "acquire_loop (lag e) (refill e) (clock s) 0 s"
  from assms have acq: "fst ?r = Inr w"
    by (cases ?r) (auto simp: first_segment_def split: sum.splits prod.splits)
  note a = acquired_facts[OF acq]
  from a(1) obtain evs where evs: "trace (snd ?r) = trace s @ evs" "connects evs = []" by blast
  have fs: "first_segment e s
      = (Inr (w, instance_handle (heap s w) = None),
         if instance_handle (heap s w) = None then emit (Connect w) (snd ?r) else snd ?r)"
    using acq a(4)[of w] by (cases ?r) (simp add: first_segment_def begin_instance_def)
  from assms show c: "c = (instance_handle (heap s w) = None)" unfolding fs by simp
  show "instance_handle (heap (snd (first_segment e s)) a) = instance_handle (heap s a)"
    unfolding fs by (simp add: emit_def a(4))
  show "\<exists>evs. trace (snd (first_segment e s)) = trace s @ evs
           \<and> connects evs = (if c then [w] else [])"
    unfolding fs c
    by (rule exI[of _ "evs @ (if instance_handle (heap s w) = None then [Connect w] else [])"])
       (simp add: emit_def evs)
qed

lemma ensure_instance_cached:
  "instance_handle (heap s w) \<noteq> None \<Longrightarrow> ensure_instance e w s = (None, s)"
  by (auto simp: ensure_instance_def begin_instance_def)

lemma one_left_windows: "windows one_left = [1] \<and> window_index one_left = 2"
  by (simp add: one_left_def low_job_def run_defs fixture_defs)

text \<open>
  C9. Served one after the other, a job that finds the handle of its worker does not
  connect (\<open>ensure_instance_cached\<close>). But the handle is read in line 293 and
  stored only when the awaited call of line 297 returns, and nothing marks the worker
  as connecting meanwhile: when a second job acquires the same worker before the
  connection of the first has returned, it reads \<open>None\<close> too and connects again.
  \<open>connect_over_cdp\<close> is called twice for the worker, and the handle of the second
  call replaces the handle of the first.
\<close>

theorem concurrent_first_use_connects_twice:
  assumes "fst (first_segment eA s) = Inr (w, cA)"
    and "instance_handle (heap s w) = None"
    and "fst (first_segment eB (snd (first_segment eA s))) = Inr (w, cB)"
    and "connect_over_cdp eA = Inr hA" and "connect_over_cdp eB = Inr hB"
  shows "cA \<and> cB
    \<and> connects (since s (snd (first_segment eB (snd (first_segment eA s))))) = [w, w]
    \<and> instance_handle
        (heap (snd (finish_instance eA w (snd (first_segment eB (snd (first_segment eA s)))))) w)
        = Some hA
    \<and> instance_handle
        (heap (snd (finish_instance eB w
                 (snd (finish_instance eA w (snd (first_segment eB (snd (first_segment eA s)))))))) w)
        = Some hB"
proof -
  let ?sA = "snd (first_segment eA s)"
  let ?sB = "snd (first_segment eB ?sA)"
  note fa = first_segment_facts[OF assms(1)]
  note fb = first_segment_facts[OF assms(3)]
  have cA: cA using fa(1) assms(2) by simp
  have "instance_handle (heap ?sA w) = None" using fa(2) assms(2) by simp
  then have cB: cB using fb(1) by simp
  from fa(3) cA obtain evs1 where e1: "trace ?sA = trace s @ evs1" "connects evs1 = [w]" by auto
  from fb(3) cB obtain evs2 where e2: "trace ?sB = trace ?sA @ evs2" "connects evs2 = [w]" by auto
  have tr: "trace ?sB = trace s @ (evs1 @ evs2)" by (simp add: e1 e2)
  have cn: "connects (since s ?sB) = [w, w]" unfolding since_append[OF tr] by (simp add: e1 e2)
  have h1: "instance_handle (heap (snd (finish_instance eA w ?sB)) w) = Some hA"
    using assms(4) by (simp add: finish_instance_def)
  have h2: "instance_handle (heap (snd (finish_instance eB w (snd (finish_instance eA w ?sB)))) w)
        = Some hB"
    using assms(5) by (simp add: finish_instance_def)
  from cA cB cn h1 h2 show ?thesis by blast
qed

theorem concurrent_first_use_connects_twice_witness:
  "windows one_left = [1]
   \<and> fst (first_segment all_well one_left) = Inr (1, True)
   \<and> instance_handle (heap one_left 1) = None
   \<and> fst (first_segment (all_well\<lparr>connect_over_cdp := Inr 8\<rparr>) (snd (first_segment all_well one_left)))
       = Inr (1, True)
   \<and> connect_over_cdp all_well = Inr 7
   \<and> connect_over_cdp (all_well\<lparr>connect_over_cdp := Inr 8\<rparr>) = Inr 8
   \<and> connects (since one_left
        (snd (first_segment (all_well\<lparr>connect_over_cdp := Inr 8\<rparr>)
               (snd (first_segment all_well one_left))))) = [1, 1]
   \<and> instance_handle
        (heap (snd (finish_instance all_well 1
                 (snd (first_segment (all_well\<lparr>connect_over_cdp := Inr 8\<rparr>)
                        (snd (first_segment all_well one_left)))))) 1) = Some 7
   \<and> instance_handle
        (heap (snd (finish_instance (all_well\<lparr>connect_over_cdp := Inr 8\<rparr>) 1
                 (snd (finish_instance all_well 1
                        (snd (first_segment (all_well\<lparr>connect_over_cdp := Inr 8\<rparr>)
                               (snd (first_segment all_well one_left)))))))) 1) = Some 8"
proof -
  have w: "windows one_left = [1]" using one_left_windows by simp
  have h1: "fst (first_segment all_well one_left) = Inr (1, True)"
    by (simp add: first_segment_def one_left_def low_job_def run_defs fixture_defs)
  have h2: "instance_handle (heap one_left 1) = None"
    by (simp add: one_left_def low_job_def run_defs fixture_defs)
  have h3: "fst (first_segment (all_well\<lparr>connect_over_cdp := Inr 8\<rparr>)
                  (snd (first_segment all_well one_left))) = Inr (1, True)"
    by (simp add: first_segment_def one_left_def low_job_def run_defs fixture_defs)
  have h4: "connect_over_cdp all_well = Inr 7" by (simp add: fixture_defs)
  have h5: "connect_over_cdp (all_well\<lparr>connect_over_cdp := Inr 8\<rparr>) = Inr 8" by simp
  from concurrent_first_use_connects_twice[OF h1 h2 h3 h4 h5] w h1 h2 h3 h4 h5
  show ?thesis by blast
qed

end
